theory Spec2Isabelle
  imports Main "HOL-Library.AList"
begin

section \<open>Values, dictionaries and errors\<close>

text \<open>
  Field values are Python values. Only the shapes the mapping layer itself inspects are
  distinguished: \<open>None\<close>, booleans, integers, strings and the store's object identifiers.
\<close>

datatype pyval = PNone | PBool bool | PInt int | PStr string | ObjectId nat

text \<open>
  A Python \<open>dict\<close> with string keys keeps insertion order; it is an association list.
  \<open>d[k] = v\<close> is \<open>AList.update k v d\<close> (replace in place, or append), and
  \<open>d.update(u)\<close> stores the items of \<open>u\<close> one after the other.
\<close>

type_synonym pydict = "(string \<times> pyval) list"

definition dict_update :: "pydict \<Rightarrow> pydict \<Rightarrow> pydict" where
  "dict_update d u = fold (\<lambda>(k, v). AList.update k v) u d"

text \<open>The exceptions that can leave the mapping layer, as values.\<close>

datatype error =
    MultipleKeys | NoCollection | NoDatabase | UniqueConflict
  | DuplicateKeyError | WriteError
  | KeyError | AttributeError | TypeError | ValueError | NotImplementedError
  | NoSuchObject

section \<open>The store\<close>

text \<open>
  The database driver is an external collaborator. Handles are values: a client, a
  database of a client, a collection of a database. \<open>client.get_database(n)\<close> is
  \<open>Database client n\<close> and \<open>database.get_collection(n)\<close> is \<open>Collection database n\<close>.
\<close>

type_synonym client = string

datatype database = Database client string

datatype collection = Collection database string

text \<open>
  The contents of one collection: its documents in store order and the fields that
  carry a unique index. Every call made to the driver is also recorded, in order.
\<close>

record coll_state =
  docs :: "pydict list"
  indexes :: "string list"

datatype store_call =
    CreateIndex collection string
  | InsertOne collection pydict
  | UpdateOne collection pydict pydict
  | DeleteOne collection pydict
  | DeleteMany collection pydict
  | Find collection pydict
  | FindOne collection pydict

section \<open>Model classes and the state of the process\<close>

text \<open>
  An annotation of the class body: \<open>name: T\<close>, \<open>name: Unique[T]\<close> or \<open>name: Key[T]\<close>.
  Only \<open>Key[T]\<close> has \<open>__origin__ is Key\<close>.
\<close>

datatype anno = Plain string | Unique string | Key string

text \<open>
  What a class declaration fixes: its name, its annotations in declaration order, the
  attributes of its body (the declared defaults), and the serializer it shares. The
  serializer is an external component; it is a pair of functions here.
\<close>

record model_class =
  cls_name :: string
  annotations :: "(string \<times> anno) list"
  class_dict :: pydict
  serialize :: "pyval \<Rightarrow> pyval"
  deserialize :: "anno \<Rightarrow> pyval \<Rightarrow> pyval"

text \<open>
  The mutable state: the class attributes set in \<open>__init_subclass__\<close> and changed by the
  class methods, the instances (an instance is its \<open>__dict__\<close>; its address is its
  position in \<open>objs\<close>, an address is never reused, and a collected instance leaves
  \<open>None\<close> behind), and the store.
\<close>

record world =
  DEFAULT_CLIENT :: "client option"
  DEFAULT_DATABASE :: "database option"
  KEY_FIELD :: string
  CLIENT :: "client option"
  DATABASE :: "database option"
  COLLECTION :: "collection option"
  COLLECTION_INITIALIZED :: bool
  WEAKREFS :: "pyval \<rightharpoonup> nat"
  objs :: "pydict option list"
  colls :: "collection \<Rightarrow> coll_state"
  calls :: "store_call list"
  next_oid :: nat

text \<open>Calling a weak reference: the instance if it is still there, \<open>None\<close> otherwise.\<close>

definition deref :: "world \<Rightarrow> nat \<Rightarrow> pydict option" where
  "deref s a = (if a < length (objs s) then objs s ! a else None)"

text \<open>The collector reclaims an instance nobody holds any more.\<close>

definition collect :: "nat \<Rightarrow> world \<Rightarrow> world" where
  "collect a s = s\<lparr>objs := (objs s)[a := None]\<rparr>"

subsection \<open>The driver's collection interface\<close>

text \<open>
  The collection methods the mapping layer calls, with the behaviour the driver
  documents, as far as the layer depends on it. A missing field reads as null. A filter
  is a document of required field values. A unique index on a field forbids two
  documents with the same value there, and \<open>_id\<close> is always unique; \<open>insert_one\<close> and
  \<open>update_one\<close> raise \<open>DuplicateKeyError\<close> rather than break that. \<open>insert_one\<close> gives
  a document without \<open>_id\<close> the next object identifier. \<open>update_one\<close> sets the given
  fields on the first matching document and refuses to change its \<open>_id\<close>. Creating
  an index is taken to succeed; the driver itself raises its duplicate-key error when the
  documents already stored rule a unique index out, and \<open>new\<close> and \<open>update\<close>, whose handlers
  enclose \<open>get_collection()\<close>, pass every error of \<open>get_collection\<close> through their
  translation.
\<close>

definition dict_get :: "pydict \<Rightarrow> string \<Rightarrow> pyval" where
  "dict_get d k = (case map_of d k of None \<Rightarrow> PNone | Some v \<Rightarrow> v)"

definition matches :: "pydict \<Rightarrow> pydict \<Rightarrow> bool" where
  "matches flt d = list_all (\<lambda>(k, v). dict_get d k = v) flt"

definition violates :: "string list \<Rightarrow> pydict list \<Rightarrow> pydict \<Rightarrow> bool" where
  "violates ixs ds d =
     list_ex (\<lambda>f. list_ex (\<lambda>d'. dict_get d' f = dict_get d f) ds) (''_id'' # ixs)"

fun remove_first :: "('a \<Rightarrow> bool) \<Rightarrow> 'a list \<Rightarrow> 'a list" where
  "remove_first P [] = []"
| "remove_first P (x # xs) = (if P x then xs else x # remove_first P xs)"

fun replace_first :: "('a \<Rightarrow> bool) \<Rightarrow> 'a \<Rightarrow> 'a list \<Rightarrow> 'a list" where
  "replace_first P y [] = []"
| "replace_first P y (x # xs) = (if P x then y # xs else x # replace_first P y xs)"

definition set_docs :: "collection \<Rightarrow> pydict list \<Rightarrow> world \<Rightarrow> world" where
  "set_docs c ds s = s\<lparr>colls := (colls s)(c := (colls s c)\<lparr>docs := ds\<rparr>)\<rparr>"

definition record_call :: "store_call \<Rightarrow> world \<Rightarrow> world" where
  "record_call x s = s\<lparr>calls := calls s @ [x]\<rparr>"

definition create_index :: "collection \<Rightarrow> string \<Rightarrow> world \<Rightarrow> world" where
  "create_index c f s =
     record_call (CreateIndex c f)
       (s\<lparr>colls := (colls s)(c := (colls s c)\<lparr>indexes := List.insert f (indexes (colls s c))\<rparr>)\<rparr>)"

definition insert_one :: "collection \<Rightarrow> pydict \<Rightarrow> world \<Rightarrow> (error + pyval) \<times> world" where
  "insert_one c d s =
     (let d' = (if ''_id'' \<in> fst ` set d then d else d @ [(''_id'', ObjectId (next_oid s))]);
          s1 = record_call (InsertOne c d) (s\<lparr>next_oid := Suc (next_oid s)\<rparr>)
      in if violates (indexes (colls s c)) (docs (colls s c)) d'
         then (Inl DuplicateKeyError, s1)
         else (Inr (dict_get d' ''_id''), set_docs c (docs (colls s c) @ [d']) s1))"

definition coll_find :: "collection \<Rightarrow> pydict \<Rightarrow> world \<Rightarrow> pydict list \<times> world" where
  "coll_find c flt s = (filter (matches flt) (docs (colls s c)), record_call (Find c flt) s)"

definition coll_find_one :: "collection \<Rightarrow> pydict \<Rightarrow> world \<Rightarrow> pydict option \<times> world" where
  "coll_find_one c flt s =
     (List.find (matches flt) (docs (colls s c)), record_call (FindOne c flt) s)"

definition update_one ::
  "collection \<Rightarrow> pydict \<Rightarrow> pydict \<Rightarrow> world \<Rightarrow> (error + unit) \<times> world" where
  "update_one c flt upd s =
     (let ds = docs (colls s c); s1 = record_call (UpdateOne c flt upd) s
      in case List.find (matches flt) ds of
           None \<Rightarrow> (Inr (), s1)
         | Some d \<Rightarrow>
             (let d' = dict_update d upd
              in if dict_get d' ''_id'' \<noteq> dict_get d ''_id'' then (Inl WriteError, s1)
                 else if violates (indexes (colls s c)) (remove_first (matches flt) ds) d'
                 then (Inl DuplicateKeyError, s1)
                 else (Inr (), set_docs c (replace_first (matches flt) d' ds) s1)))"

definition delete_one :: "collection \<Rightarrow> pydict \<Rightarrow> world \<Rightarrow> world" where
  "delete_one c flt s =
     set_docs c (remove_first (matches flt) (docs (colls s c))) (record_call (DeleteOne c flt) s)"

definition delete_many :: "collection \<Rightarrow> pydict \<Rightarrow> world \<Rightarrow> world" where
  "delete_many c flt s =
     set_docs c (filter (\<lambda>d. \<not> matches flt d) (docs (colls s c)))
       (record_call (DeleteMany c flt) s)"

section \<open>Class definition and binding\<close>

text \<open>
  A database or collection is given as a ready handle or as a name.
\<close>

datatype 'h binding = Handle 'h | Name string

text \<open>
  \<open>set_database\<close>: a handle is taken as it is; a name is resolved through the class's
  client, and without a client the call raises \<open>NoDatabase\<close>.
\<close>

fun set_database :: "database binding \<Rightarrow> world \<Rightarrow> (error + unit) \<times> world" where
  "set_database (Handle db) s = (Inr (), s\<lparr>DATABASE := Some db\<rparr>)"
| "set_database (Name n) s =
     (case CLIENT s of
        Some cl \<Rightarrow> (Inr (), s\<lparr>DATABASE := Some (Database cl n)\<rparr>)
      | None \<Rightarrow> (Inl NoDatabase, s))"

fun set_collection :: "collection binding \<Rightarrow> world \<Rightarrow> (error + unit) \<times> world" where
  "set_collection (Handle c) s = (Inr (), s\<lparr>COLLECTION := Some c\<rparr>)"
| "set_collection (Name n) s =
     (case DATABASE s of
        Some db \<Rightarrow> (Inr (), s\<lparr>COLLECTION := Some (Collection db n)\<rparr>)
      | None \<Rightarrow> (Inl NoDatabase, s))"

text \<open>
  The loop of \<open>__init_subclass__\<close> over the annotations. \<open>kf\<close> is the current value of
  \<open>cls._KEY_FIELD\<close>; the test for an earlier key is \<open>cls._KEY_FIELD != '_id'\<close>.
\<close>

fun scan_keys :: "(string \<times> anno) list \<Rightarrow> string \<Rightarrow> error + string" where
  "scan_keys [] kf = Inr kf"
| "scan_keys ((a, Key t) # rest) kf =
     (if kf \<noteq> ''_id'' then Inl MultipleKeys else scan_keys rest a)"
| "scan_keys ((a, Plain t) # rest) kf = scan_keys rest kf"
| "scan_keys ((a, Unique t) # rest) kf = scan_keys rest kf"

text \<open>
  The class keywords \<open>database=\<close> and \<open>collection=\<close> are tested with \<open>if database:\<close>.
  An absent keyword and an empty name are false; the driver's handle objects refuse
  truth testing (their \<open>__bool__\<close> raises \<open>NotImplementedError\<close>).
\<close>

fun bind_keyword ::
  "('h binding \<Rightarrow> world \<Rightarrow> (error + unit) \<times> world) \<Rightarrow> 'h binding option \<Rightarrow> world
     \<Rightarrow> (error + unit) \<times> world" where
  "bind_keyword setter None s = (Inr (), s)"
| "bind_keyword setter (Some (Handle h)) s = (Inl NotImplementedError, s)"
| "bind_keyword setter (Some (Name n)) s = (if n = [] then (Inr (), s) else setter (Name n) s)"

text \<open>
  \<open>__init_subclass__\<close>. The incoming state holds what the new class inherits
  (\<open>_KEY_FIELD\<close> is \<open>'_id'\<close> for a direct subclass of the base model). The signature
  built at the end has one parameter \<open>self\<close> and one per annotation, and
  \<open>inspect.Signature\<close> rejects a duplicate parameter name with \<open>ValueError\<close>.
\<close>

definition init_subclass ::
  "model_class \<Rightarrow> database binding option \<Rightarrow> collection binding option \<Rightarrow> world
     \<Rightarrow> (error + unit) \<times> world" where
  "init_subclass cls kw_database kw_collection s =
     (let s0 = s\<lparr>WEAKREFS := Map.empty, CLIENT := DEFAULT_CLIENT s,
                 DATABASE := DEFAULT_DATABASE s, COLLECTION := None,
                 COLLECTION_INITIALIZED := False\<rparr>
      in case bind_keyword set_database kw_database s0 of
           (Inl e, s1) \<Rightarrow> (Inl e, s1)
         | (Inr _, s1) \<Rightarrow>
             (case bind_keyword set_collection kw_collection s1 of
                (Inl e, s2) \<Rightarrow> (Inl e, s2)
              | (Inr _, s2) \<Rightarrow>
                  (case scan_keys (annotations cls) (KEY_FIELD s2) of
                     Inl e \<Rightarrow> (Inl e, s2)
                   | Inr kf \<Rightarrow>
                       if ''self'' \<in> fst ` set (annotations cls)
                       then (Inl ValueError, s2\<lparr>KEY_FIELD := kf\<rparr>)
                       else (Inr (), s2\<lparr>KEY_FIELD := kf\<rparr>))))"

subsection \<open>Resolving the collection\<close>

text \<open>
  Modelled from the spec: \<open>DbModel._get_field(k).unique_or_key\<close> (the base class
  \<open>DbModel\<close> is not part of the sources). A field is unique-or-key when its annotation
  carries the key marker or the unique marker.
\<close>

definition unique_or_key :: "model_class \<Rightarrow> string \<Rightarrow> bool" where
  "unique_or_key cls k =
     (case map_of (annotations cls) k of
        Some (Key t) \<Rightarrow> True | Some (Unique t) \<Rightarrow> True | _ \<Rightarrow> False)"

text \<open>
  Modelled from the spec: \<open>DbModel._get_default(k)\<close> (the base class \<open>DbModel\<close> is not
  part of the sources). An unspecified field takes the class-declared default, or
  \<open>None\<close> when the class declares none.
\<close>

definition priv_get_default :: "model_class \<Rightarrow> string \<Rightarrow> pyval" where
  "priv_get_default cls k = dict_get (class_dict cls) k"

definition priv_init_collection :: "model_class \<Rightarrow> collection \<Rightarrow> world \<Rightarrow> world" where
  "priv_init_collection cls c s =
     (fold (\<lambda>k s'. if unique_or_key cls k then create_index c k s' else s')
           (map fst (annotations cls)) s)
       \<lparr>COLLECTION_INITIALIZED := True\<rparr>"

text \<open>
  \<open>get_collection\<close>. The two tests are two separate \<open>if\<close> statements: the bound
  collection is taken first, and a bound database then replaces it by the collection
  named after the class.
\<close>

definition get_collection :: "model_class \<Rightarrow> world \<Rightarrow> (error + collection) \<times> world" where
  "get_collection cls s =
     (let collection = (case COLLECTION s of Some c \<Rightarrow> Some c | None \<Rightarrow> None);
          collection = (case DATABASE s of
                          Some db \<Rightarrow> Some (Collection db (cls_name cls))
                        | None \<Rightarrow> collection)
      in case collection of
           None \<Rightarrow> (Inl NoCollection, s)
         | Some c \<Rightarrow>
             (Inr c, if COLLECTION_INITIALIZED s then s else priv_init_collection cls c s))"

section \<open>Instances and the identity cache\<close>

text \<open>
  \<open>self._id\<close>: the instance's own \<open>__dict__\<close> first, then an attribute of the class
  body; the base model only annotates \<open>_id\<close> and gives it no value, so the lookup
  raises \<open>AttributeError\<close> when neither has it.
\<close>

definition getattr_id :: "model_class \<Rightarrow> pydict \<Rightarrow> error + pyval" where
  "getattr_id cls inst =
     (case map_of inst ''_id'' of
        Some v \<Rightarrow> Inr v
      | None \<Rightarrow> (case map_of (class_dict cls) ''_id'' of
                   Some v \<Rightarrow> Inr v
                 | None \<Rightarrow> Inl AttributeError))"

text \<open>
  \<open>__init__\<close>: every annotated field starts at the class attribute of that name (or
  \<open>None\<close>), positional values go to the fields in declaration order, keyword values
  are laid over them, and the new instance is registered under \<open>self._id\<close>. The new
  instance gets the next address. When \<open>self._id\<close> raises, the half-built instance is
  dropped and nothing is registered.
\<close>

definition init_inst ::
  "model_class \<Rightarrow> pyval list \<Rightarrow> pydict \<Rightarrow> world \<Rightarrow> (error + nat) \<times> world" where
  "init_inst cls args kwargs s =
     (let d0 = fold (\<lambda>key d. AList.update key (dict_get (class_dict cls) key) d)
                    (map fst (annotations cls)) [];
          vals = dict_update (zip (map fst (annotations cls)) args) kwargs;
          d = dict_update d0 vals
      in case getattr_id cls d of
           Inl e \<Rightarrow> (Inl e, s\<lparr>objs := objs s @ [None]\<rparr>)
         | Inr i \<Rightarrow>
             (Inr (length (objs s)),
              s\<lparr>objs := objs s @ [Some d], WEAKREFS := (WEAKREFS s)(i \<mapsto> length (objs s))\<rparr>))"

text \<open>
  The call \<open>cls(*args, **kwargs)\<close>: a keyword named \<open>self\<close> collides with the first
  parameter of \<open>__init__\<close> and raises \<open>TypeError\<close>.
\<close>

definition construct ::
  "model_class \<Rightarrow> pyval list \<Rightarrow> pydict \<Rightarrow> world \<Rightarrow> (error + nat) \<times> world" where
  "construct cls args kwargs s =
     (if ''self'' \<in> fst ` set kwargs then (Inl TypeError, s) else init_inst cls args kwargs s)"

text \<open>
  The call \<open>cls(**doc, ___internal___=True)\<close>: a document that already has the key
  \<open>___internal___\<close> gives the keyword twice, a \<open>TypeError\<close>.
\<close>

definition construct_internal :: "model_class \<Rightarrow> pydict \<Rightarrow> world \<Rightarrow> (error + nat) \<times> world" where
  "construct_internal cls doc s =
     (if ''___internal___'' \<in> fst ` set doc then (Inl TypeError, s)
      else construct cls [] (doc @ [(''___internal___'', PBool True)]) s)"

definition priv_get_all_args :: "model_class \<Rightarrow> pyval list \<Rightarrow> pydict \<Rightarrow> pydict" where
  "priv_get_all_args cls args kwargs = dict_update (zip (map fst (annotations cls)) args) kwargs"

definition priv_get_store_vals :: "model_class \<Rightarrow> pydict \<Rightarrow> pydict" where
  "priv_get_store_vals cls d = map (\<lambda>(k, v). (k, serialize cls v)) d"

definition priv_get_retrieve_vals :: "model_class \<Rightarrow> pydict \<Rightarrow> pydict" where
  "priv_get_retrieve_vals cls d =
     map (\<lambda>(k, v). (k, case map_of (annotations cls) k of
                          Some t \<Rightarrow> deserialize cls t v
                        | None \<Rightarrow> v)) d"

text \<open>
  The cache lookup of \<open>_get\<close>: the key is in \<open>_WEAKREFS\<close> and its weak reference still
  gives an object (an instance is true: the class defines no truth value of its own).
  Keys are compared as values of \<open>pyval\<close>; the Python dictionary moreover takes \<open>True\<close>
  for \<open>1\<close> and \<open>False\<close> for \<open>0\<close>, so the lookup is exact for every other key.
\<close>

definition cached :: "world \<Rightarrow> pyval \<Rightarrow> nat option" where
  "cached s k =
     (case WEAKREFS s k of
        None \<Rightarrow> None
      | Some a \<Rightarrow> (case deref s a of None \<Rightarrow> None | Some inst \<Rightarrow> Some a))"

definition priv_get :: "model_class \<Rightarrow> pydict \<Rightarrow> world \<Rightarrow> (error + nat) \<times> world" where
  "priv_get cls doc s =
     (case map_of doc ''_id'' of
        None \<Rightarrow> (Inl KeyError, s)
      | Some bson_id \<Rightarrow>
          (case cached s bson_id of
             Some obj \<Rightarrow> (Inr obj, s)
           | None \<Rightarrow>
               construct_internal cls (dict_update doc (priv_get_retrieve_vals cls doc)) s))"

section \<open>The operations on documents\<close>

text \<open>The list comprehension \<open>[cls._get(doc) for doc in ...]\<close>.\<close>

fun get_each :: "model_class \<Rightarrow> pydict list \<Rightarrow> world \<Rightarrow> (error + nat list) \<times> world" where
  "get_each cls [] s = (Inr [], s)"
| "get_each cls (d # ds) s =
     (case priv_get cls d s of
        (Inl e, s1) \<Rightarrow> (Inl e, s1)
      | (Inr a, s1) \<Rightarrow>
          (case get_each cls ds s1 of
             (Inl e, s2) \<Rightarrow> (Inl e, s2)
           | (Inr as, s2) \<Rightarrow> (Inr (a # as), s2)))"

definition query :: "model_class \<Rightarrow> pydict \<Rightarrow> world \<Rightarrow> (error + nat list) \<times> world" where
  "query cls q s =
     (case get_collection cls s of
        (Inl e, s1) \<Rightarrow> (Inl e, s1)
      | (Inr c, s1) \<Rightarrow> (case coll_find c q s1 of (ds, s2) \<Rightarrow> get_each cls ds s2))"

definition find_all ::
  "model_class \<Rightarrow> pyval list \<Rightarrow> pydict \<Rightarrow> world \<Rightarrow> (error + nat list) \<times> world" where
  "find_all cls args kwargs s =
     query cls (priv_get_store_vals cls (priv_get_all_args cls args kwargs)) s"

text \<open>
  \<open>find_one\<close> returns \<open>None\<close> when the store has no match (and for an empty document,
  which is false in \<open>if doc := ...\<close>).
\<close>

definition find_one ::
  "model_class \<Rightarrow> pyval list \<Rightarrow> pydict \<Rightarrow> world \<Rightarrow> (error + nat option) \<times> world" where
  "find_one cls args kwargs s =
     (case get_collection cls s of
        (Inl e, s1) \<Rightarrow> (Inl e, s1)
      | (Inr c, s1) \<Rightarrow>
          (case coll_find_one c (priv_get_store_vals cls (priv_get_all_args cls args kwargs)) s1 of
             (None, s2) \<Rightarrow> (Inr None, s2)
           | (Some doc, s2) \<Rightarrow>
               if doc = [] then (Inr None, s2)
               else (case priv_get cls doc s2 of
                       (Inl e, s3) \<Rightarrow> (Inl e, s3)
                     | (Inr a, s3) \<Rightarrow> (Inr (Some a), s3))))"

definition delete_all ::
  "model_class \<Rightarrow> pyval list \<Rightarrow> pydict \<Rightarrow> world \<Rightarrow> (error + unit) \<times> world" where
  "delete_all cls args kwargs s =
     (case get_collection cls s of
        (Inl e, s1) \<Rightarrow> (Inl e, s1)
      | (Inr c, s1) \<Rightarrow>
          (Inr (), delete_many c (priv_get_store_vals cls (priv_get_all_args cls args kwargs)) s1))"

text \<open>The handler \<open>except DuplicateKeyError: raise UniqueConflict\<close>.\<close>

definition translate :: "error \<Rightarrow> error" where
  "translate e = (if e = DuplicateKeyError then UniqueConflict else e)"

text \<open>The field map that \<open>new\<close> builds: one entry per annotation, in declaration order.\<close>

definition new_doc :: "model_class \<Rightarrow> pyval list \<Rightarrow> pydict \<Rightarrow> pydict" where
  "new_doc cls args kwargs =
     map (\<lambda>k. (k, case map_of (priv_get_all_args cls args kwargs) k of
                    Some v \<Rightarrow> v
                  | None \<Rightarrow> priv_get_default cls k))
         (map fst (annotations cls))"

definition new :: "model_class \<Rightarrow> pyval list \<Rightarrow> pydict \<Rightarrow> world \<Rightarrow> (error + nat) \<times> world" where
  "new cls args kwargs s =
     (case get_collection cls s of
        (Inl e, s1) \<Rightarrow> (Inl (translate e), s1)
      | (Inr c, s1) \<Rightarrow>
          (case insert_one c (priv_get_store_vals cls (new_doc cls args kwargs)) s1 of
             (Inl e, s2) \<Rightarrow> (Inl (translate e), s2)
           | (Inr inserted_id, s2) \<Rightarrow>
               construct_internal cls
                 (AList.update ''_id'' inserted_id (new_doc cls args kwargs)) s2))"

text \<open>
  \<open>get_or_create\<close> is \<open>find_one(...) or cls(...)\<close>: the instance found, or a direct
  call of the constructor with the same arguments.
\<close>

definition get_or_create ::
  "model_class \<Rightarrow> pyval list \<Rightarrow> pydict \<Rightarrow> world \<Rightarrow> (error + nat) \<times> world" where
  "get_or_create cls args kwargs s =
     (case find_one cls args kwargs s of
        (Inl e, s1) \<Rightarrow> (Inl e, s1)
      | (Inr (Some a), s1) \<Rightarrow> (Inr a, s1)
      | (Inr None, s1) \<Rightarrow> construct cls args kwargs s1)"

subsection \<open>Instance methods\<close>

text \<open>
  A method runs on an instance that exists; \<open>NoSuchObject\<close> marks a call at an address
  that holds no instance, which no Python program can make.
\<close>

text \<open>An attribute assignment \<open>inst.field = v\<close> changes the instance only.\<close>

definition setattr :: "nat \<Rightarrow> string \<Rightarrow> pyval \<Rightarrow> world \<Rightarrow> world" where
  "setattr a k v s =
     (case deref s a of
        None \<Rightarrow> s
      | Some inst \<Rightarrow> s\<lparr>objs := (objs s)[a := Some (AList.update k v inst)]\<rparr>)"

definition declared :: "model_class \<Rightarrow> pydict \<Rightarrow> pydict" where
  "declared cls kwargs = filter (\<lambda>(k, v). k \<in> fst ` set (annotations cls)) kwargs"

definition update :: "model_class \<Rightarrow> nat \<Rightarrow> pydict \<Rightarrow> world \<Rightarrow> (error + unit) \<times> world" where
  "update cls a kwargs s =
     (case deref s a of
        None \<Rightarrow> (Inl NoSuchObject, s)
      | Some inst \<Rightarrow>
          (let updates = declared cls kwargs
           in if updates = [] then (Inr (), s)
              else
                (let inst' = dict_update inst updates;
                     s0 = s\<lparr>objs := (objs s)[a := Some inst']\<rparr>
                 in case get_collection cls s0 of
                      (Inl e, s1) \<Rightarrow> (Inl (translate e), s1)
                    | (Inr c, s1) \<Rightarrow>
                        (case getattr_id cls inst' of
                           Inl e \<Rightarrow> (Inl (translate e), s1)
                         | Inr i \<Rightarrow>
                             (case update_one c [(''_id'', i)]
                                     (priv_get_store_vals cls updates) s1 of
                                (Inl e, s2) \<Rightarrow> (Inl (translate e), s2)
                              | (Inr u, s2) \<Rightarrow> (Inr (), s2))))))"

definition delete :: "model_class \<Rightarrow> nat \<Rightarrow> world \<Rightarrow> (error + unit) \<times> world" where
  "delete cls a s =
     (case deref s a of
        None \<Rightarrow> (Inl NoSuchObject, s)
      | Some inst \<Rightarrow>
          (case get_collection cls s of
             (Inl e, s1) \<Rightarrow> (Inl e, s1)
           | (Inr c, s1) \<Rightarrow>
               (case getattr_id cls inst of
                  Inl e \<Rightarrow> (Inl e, s1)
                | Inr i \<Rightarrow>
                    (let s2 = delete_one c [(''_id'', i)] s1
                     in case WEAKREFS s2 i of
                          None \<Rightarrow> (Inl KeyError, s2)
                        | Some r \<Rightarrow> (Inr (), s2\<lparr>WEAKREFS := (WEAKREFS s2)(i := None)\<rparr>)))))"

section \<open>Programs that use a class\<close>

text \<open>
  What a program can do with a class: retrieve (\<open>find\<close>, \<open>find_one\<close>, \<open>query\<close>),
  delete by filter, update or assign to an instance it holds, drop its last reference
  to an instance, which the collector then reclaims, create a document (\<open>new\<close>), call
  \<open>get_or_create\<close> or the constructor itself, delete an instance, and bind the class to
  another database or collection. An exception is caught by the program; the state it
  leaves is what the next step sees.
\<close>

datatype op =
    DoFind "pyval list" pydict
  | DoFindOne "pyval list" pydict
  | DoQuery pydict
  | DoDeleteAll "pyval list" pydict
  | DoUpdate nat pydict
  | DoSetattr nat string pyval
  | DoCollect nat
  | DoNew "pyval list" pydict
  | DoGetOrCreate "pyval list" pydict
  | DoConstruct "pyval list" pydict
  | DoDelete nat
  | DoSetDatabase "database binding"
  | DoSetCollection "collection binding"

fun exec_op :: "model_class \<Rightarrow> op \<Rightarrow> world \<Rightarrow> world" where
  "exec_op cls (DoFind args kwargs) s = snd (find_all cls args kwargs s)"
| "exec_op cls (DoFindOne args kwargs) s = snd (find_one cls args kwargs s)"
| "exec_op cls (DoQuery q) s = snd (query cls q s)"
| "exec_op cls (DoDeleteAll args kwargs) s = snd (delete_all cls args kwargs s)"
| "exec_op cls (DoUpdate a kwargs) s = snd (update cls a kwargs s)"
| "exec_op cls (DoSetattr a k v) s = setattr a k v s"
| "exec_op cls (DoCollect a) s = collect a s"
| "exec_op cls (DoNew args kwargs) s = snd (new cls args kwargs s)"
| "exec_op cls (DoGetOrCreate args kwargs) s = snd (get_or_create cls args kwargs s)"
| "exec_op cls (DoConstruct args kwargs) s = snd (construct cls args kwargs s)"
| "exec_op cls (DoDelete a) s = snd (delete cls a s)"
| "exec_op cls (DoSetDatabase b) s = snd (set_database b s)"
| "exec_op cls (DoSetCollection b) s = snd (set_collection b s)"

definition run :: "model_class \<Rightarrow> op list \<Rightarrow> world \<Rightarrow> world" where
  "run cls ops s = fold (exec_op cls) ops s"

text \<open>A call to the driver other than \<open>create_index\<close>.\<close>

definition no_index_call :: "store_call \<Rightarrow> bool" where
  "no_index_call x = (case x of CreateIndex c f \<Rightarrow> False | _ \<Rightarrow> True)"


text \<open>
  Two conditions on the surroundings. The serializer reads a stored \<open>_id\<close> back as it is
  (this matters only for a class that declares \<open>_id\<close> as a field; \<open>_get\<close> looks the raw
  \<open>_id\<close> up and \<open>__init__\<close> registers the deserialized one). And the documents of the store
  are dictionaries: no key occurs twice.
\<close>

definition id_stable :: "model_class \<Rightarrow> bool" where
  "id_stable cls =
     (\<forall>t v. map_of (annotations cls) ''_id'' = Some t \<longrightarrow> deserialize cls t v = v)"

definition store_wf :: "world \<Rightarrow> bool" where
  "store_wf s = (\<forall>c. \<forall>d \<in> set (docs (colls s c)). distinct (map fst d))"






text \<open>
  Two states with the same binding: the same database, collection and flag, and the
  same unique indexes in every collection.
\<close>

definition same_binding :: "world \<Rightarrow> world \<Rightarrow> bool" where
  "same_binding t s =
     (DATABASE t = DATABASE s \<and> COLLECTION t = COLLECTION s \<and>
      COLLECTION_INITIALIZED t = COLLECTION_INITIALIZED s \<and>
      (\<forall>c. indexes (colls t c) = indexes (colls s c)))"


section \<open>An example class and example states\<close>

text \<open>
  A class \<open>Person\<close> with a unique \<open>name\<close> and a plain \<open>age\<close> that defaults to 0, bound
  to a database; \<open>world0\<close> is the state right after the class definition, \<open>world2\<close> the
  state after \<open>new(name='ann')\<close> and \<open>new(name='bob')\<close>. They serve as concrete inputs.
\<close>

definition person_coll :: collection where
  "person_coll = Collection (Database ''localhost'' ''db'') ''Person''"

definition person :: model_class where
  "person = \<lparr>cls_name = ''Person'',
     annotations = [(''name'', Unique ''str''), (''age'', Plain ''int'')],
     class_dict = [(''age'', PInt 0)], serialize = id, deserialize = (\<lambda>t v. v)\<rparr>"

definition world0 :: world where
  "world0 = \<lparr>DEFAULT_CLIENT = Some ''localhost'', DEFAULT_DATABASE = Some (Database ''localhost'' ''db''),
     KEY_FIELD = ''_id'', CLIENT = Some ''localhost'', DATABASE = Some (Database ''localhost'' ''db''),
     COLLECTION = None, COLLECTION_INITIALIZED = False, WEAKREFS = Map.empty, objs = [],
     colls = (\<lambda>c. \<lparr>docs = [], indexes = []\<rparr>), calls = [], next_oid = 0\<rparr>"

definition world2 :: world where
  "world2 = \<lparr>DEFAULT_CLIENT = Some ''localhost'', DEFAULT_DATABASE = Some (Database ''localhost'' ''db''),
     KEY_FIELD = ''_id'', CLIENT = Some ''localhost'', DATABASE = Some (Database ''localhost'' ''db''),
     COLLECTION = None, COLLECTION_INITIALIZED = True,
     WEAKREFS = [ObjectId 0 \<mapsto> 0, ObjectId 1 \<mapsto> 1],
     objs = [Some [(''name'', PStr ''ann''), (''age'', PInt 0), (''_id'', ObjectId 0), (''___internal___'', PBool True)],
             Some [(''name'', PStr ''bob''), (''age'', PInt 0), (''_id'', ObjectId 1), (''___internal___'', PBool True)]],
     colls = (\<lambda>c. \<lparr>docs = [], indexes = []\<rparr>)(person_coll :=
        \<lparr>docs = [[(''name'', PStr ''ann''), (''age'', PInt 0), (''_id'', ObjectId 0)],
                 [(''name'', PStr ''bob''), (''age'', PInt 0), (''_id'', ObjectId 1)]],
         indexes = [''name'']\<rparr>),
     calls = [CreateIndex person_coll ''name'',
              InsertOne person_coll [(''name'', PStr ''ann''), (''age'', PInt 0)],
              InsertOne person_coll [(''name'', PStr ''bob''), (''age'', PInt 0)]],
     next_oid = 2\<rparr>"

text \<open>
  A class that marks both \<open>_id\<close> and \<open>name\<close> as key. Two collections of the example
  database. The example class bound to the collection \<open>people\<close> and to no database
  (\<open>world_explicit\<close>), and the example class after \<open>set_collection('people')\<close>, which
  keeps its database (\<open>world_both\<close>).
\<close>

definition two_key_class :: model_class where
  "two_key_class = \<lparr>cls_name = ''Account'',
     annotations = [(''_id'', Key ''ObjectId''), (''name'', Key ''str'')],
     class_dict = [], serialize = id, deserialize = (\<lambda>t v. v)\<rparr>"

definition coll_a :: collection where
  "coll_a = Collection (Database ''localhost'' ''db'') ''people''"

definition coll_b :: collection where
  "coll_b = Collection (Database ''localhost'' ''db'') ''staff''"

definition world_explicit :: world where
  "world_explicit = world0\<lparr>DATABASE := None, COLLECTION := Some coll_a\<rparr>"

definition world_both :: world where
  "world_both = snd (set_collection (Name ''people'') world0)"

text \<open>
  The state \<open>world2\<close> after the assignment \<open>ann.age = 99\<close>, made in memory only.
\<close>

definition world2_aged :: world where
  "world2_aged = setattr 0 ''age'' (PInt 99) world2"




definition tagged :: model_class where
  "tagged = \<lparr>cls_name = ''Tagged'',
     annotations = [(''_id'', Key ''Tag''), (''name'', Plain ''str'')],
     class_dict = [], serialize = id,
     deserialize = (\<lambda>t v. if t = Key ''Tag'' then (case v of PInt n \<Rightarrow> PStr ''tag'' | _ \<Rightarrow> v) else v)\<rparr>"

text \<open>The key-marked fields of a class body, in declaration order.\<close>

fun key_marked :: "anno \<Rightarrow> bool" where
  "key_marked (Key t) = True"
| "key_marked (Plain t) = False"
| "key_marked (Unique t) = False"

definition key_fields :: "(string \<times> anno) list \<Rightarrow> string list" where
  "key_fields annos = map fst (filter (\<lambda>(a, v). key_marked v) annos)"

section \<open>Frame facts about the store and the collection binding\<close>

lemma create_index_frame [simp]:
  "calls (create_index c f s) = calls s @ [CreateIndex c f]"
  "objs (create_index c f s) = objs s"
  "WEAKREFS (create_index c f s) = WEAKREFS s"
  "DATABASE (create_index c f s) = DATABASE s"
  "COLLECTION (create_index c f s) = COLLECTION s"
  "COLLECTION_INITIALIZED (create_index c f s) = COLLECTION_INITIALIZED s"
  "docs (colls (create_index c f s) c') = docs (colls s c')"
  "set (indexes (colls (create_index c f s) c')) =
     set (indexes (colls s c')) \<union> (if c' = c then {f} else {})"
  by (simp_all add: create_index_def record_call_def)

lemma init_fold_frame:
  fixes cls c
  defines "step \<equiv> (\<lambda>k s'. if unique_or_key cls k then create_index c k s' else s')"
  shows "calls (fold step ks s) = calls s @ map (CreateIndex c) (filter (unique_or_key cls) ks)"
    and "objs (fold step ks s) = objs s"
    and "WEAKREFS (fold step ks s) = WEAKREFS s"
    and "DATABASE (fold step ks s) = DATABASE s"
    and "COLLECTION (fold step ks s) = COLLECTION s"
    and "COLLECTION_INITIALIZED (fold step ks s) = COLLECTION_INITIALIZED s"
    and "docs (colls (fold step ks s) c') = docs (colls s c')"
    and "set (indexes (colls (fold step ks s) c')) =
           set (indexes (colls s c')) \<union> (if c' = c then {k \<in> set ks. unique_or_key cls k} else {})"
  by (induction ks arbitrary: s; auto simp: step_def)+

lemma priv_init_collection_frame [simp]:
  "calls (priv_init_collection cls c s) =
     calls s @ map (CreateIndex c) (filter (unique_or_key cls) (map fst (annotations cls)))"
  "objs (priv_init_collection cls c s) = objs s"
  "WEAKREFS (priv_init_collection cls c s) = WEAKREFS s"
  "DATABASE (priv_init_collection cls c s) = DATABASE s"
  "COLLECTION (priv_init_collection cls c s) = COLLECTION s"
  "COLLECTION_INITIALIZED (priv_init_collection cls c s)"
  "docs (colls (priv_init_collection cls c s) c') = docs (colls s c')"
  "set (indexes (colls (priv_init_collection cls c s) c')) =
     set (indexes (colls s c')) \<union>
       (if c' = c then {k \<in> fst ` set (annotations cls). unique_or_key cls k} else {})"
  by (simp_all add: priv_init_collection_def init_fold_frame)

lemma get_collection_Inl:
  "get_collection cls s = (Inl e, s') \<Longrightarrow> s' = s \<and> e = NoCollection"
  by (auto simp: get_collection_def Let_def split: option.splits)

lemma get_collection_Inr:
  "get_collection cls s = (Inr c, s') \<Longrightarrow>
     s' = (if COLLECTION_INITIALIZED s then s else priv_init_collection cls c s)"
  by (auto simp: get_collection_def Let_def split: option.splits)

lemma get_collection_frame:
  assumes "get_collection cls s = (r, s')"
  shows "objs s' = objs s" and "WEAKREFS s' = WEAKREFS s" and "DATABASE s' = DATABASE s"
    and "COLLECTION s' = COLLECTION s" and "docs (colls s' c') = docs (colls s c')"
    and "COLLECTION_INITIALIZED s \<Longrightarrow> s' = s"
  using assms by (cases r; auto dest!: get_collection_Inl get_collection_Inr split: if_splits)+

lemma record_call_frame [simp]:
  "calls (record_call x s) = calls s @ [x]"
  "objs (record_call x s) = objs s"
  "WEAKREFS (record_call x s) = WEAKREFS s"
  "DATABASE (record_call x s) = DATABASE s"
  "COLLECTION (record_call x s) = COLLECTION s"
  "COLLECTION_INITIALIZED (record_call x s) = COLLECTION_INITIALIZED s"
  "colls (record_call x s) = colls s"
  "next_oid (record_call x s) = next_oid s"
  by (simp_all add: record_call_def)

lemma set_docs_frame [simp]:
  "calls (set_docs c ds s) = calls s"
  "objs (set_docs c ds s) = objs s"
  "WEAKREFS (set_docs c ds s) = WEAKREFS s"
  "DATABASE (set_docs c ds s) = DATABASE s"
  "COLLECTION (set_docs c ds s) = COLLECTION s"
  "COLLECTION_INITIALIZED (set_docs c ds s) = COLLECTION_INITIALIZED s"
  "docs (colls (set_docs c ds s) c') = (if c' = c then ds else docs (colls s c'))"
  "indexes (colls (set_docs c ds s) c') = indexes (colls s c')"
  "next_oid (set_docs c ds s) = next_oid s"
  by (simp_all add: set_docs_def)

lemma deref_cong: "objs t = objs s \<Longrightarrow> deref t a = deref s a"
  by (simp add: deref_def)

lemma cached_cong: "objs t = objs s \<Longrightarrow> WEAKREFS t = WEAKREFS s \<Longrightarrow> cached t k = cached s k"
  by (auto simp: cached_def deref_def split: option.splits)

lemma delete_many_frame [simp]:
  "calls (delete_many c flt s) = calls s @ [DeleteMany c flt]"
  "objs (delete_many c flt s) = objs s"
  "WEAKREFS (delete_many c flt s) = WEAKREFS s"
  "docs (colls (delete_many c flt s) c') =
     (if c' = c then filter (\<lambda>d. \<not> matches flt d) (docs (colls s c)) else docs (colls s c'))"
  by (simp_all add: delete_many_def)

lemma delete_one_frame [simp]:
  "calls (delete_one c flt s) = calls s @ [DeleteOne c flt]"
  "objs (delete_one c flt s) = objs s"
  "WEAKREFS (delete_one c flt s) = WEAKREFS s"
  "DATABASE (delete_one c flt s) = DATABASE s"
  "COLLECTION (delete_one c flt s) = COLLECTION s"
  "COLLECTION_INITIALIZED (delete_one c flt s) = COLLECTION_INITIALIZED s"
  "docs (colls (delete_one c flt s) c') =
     (if c' = c then remove_first (matches flt) (docs (colls s c)) else docs (colls s c'))"
  by (simp_all add: delete_one_def)



lemma world2_reached:
  "snd (new person [] [(''name'', PStr ''bob'')] (snd (new person [] [(''name'', PStr ''ann'')] world0))) = world2"
  by (simp add: new_def get_collection_def Let_def person_def world0_def world2_def person_coll_def
      priv_init_collection_def unique_or_key_def create_index_def record_call_def insert_one_def
      priv_get_store_vals_def new_doc_def priv_get_all_args_def dict_update_def priv_get_default_def
      dict_get_def violates_def set_docs_def construct_internal_def construct_def init_inst_def
      getattr_id_def fun_upd_twist)

lemma world0_defined: "init_subclass person None None world0 = (Inr (), world0)"
  by (simp add: init_subclass_def Let_def person_def world0_def)

lemma world2_resolves: "get_collection person world2 = (Inr person_coll, world2)"
  by (simp add: get_collection_def Let_def person_def world2_def person_coll_def)

lemma world2_ann: "deref world2 0 =
    Some [(''name'', PStr ''ann''), (''age'', PInt 0), (''_id'', ObjectId 0), (''___internal___'', PBool True)]"
  by (simp add: deref_def world2_def)

section \<open>Deleting by filter\<close>

text \<open>
  Claim C8. \<open>delete_all\<close> removes every matching document from the resolved collection
  with one \<open>delete_many\<close> call and leaves the identity cache as it was: \<open>_WEAKREFS\<close> and
  the instances are unchanged, so every key that had a live cached instance still has
  the same one, also when its document has just been deleted.
\<close>

theorem delete_all_keeps_cache:
  assumes "delete_all cls args kwargs s = (r, s')"
  shows "WEAKREFS s' = WEAKREFS s \<and> objs s' = objs s \<and> (\<forall>k. cached s' k = cached s k) \<and>
         (\<forall>c s1. get_collection cls s = (Inr c, s1) \<longrightarrow>
            r = Inr () \<and>
            docs (colls s' c) =
              filter (\<lambda>d. \<not> matches (priv_get_store_vals cls (priv_get_all_args cls args kwargs)) d)
                     (docs (colls s c)) \<and>
            calls s' = calls s1 @
              [DeleteMany c (priv_get_store_vals cls (priv_get_all_args cls args kwargs))])"
proof -
  obtain r1 s1 where g: "get_collection cls s = (r1, s1)" by (cases "get_collection cls s")
  note fr = get_collection_frame[OF g]
  show ?thesis
  proof (cases r1)
    case (Inl e)
    with g assms have "s' = s1" by (simp add: delete_all_def)
    with Inl g fr show ?thesis by (auto intro: cached_cong)
  next
    case (Inr c)
    with g assms have s': "s' = delete_many c (priv_get_store_vals cls (priv_get_all_args cls args kwargs)) s1"
      and r: "r = Inr ()"
      by (auto simp: delete_all_def)
    have "WEAKREFS s' = WEAKREFS s" "objs s' = objs s" using s' fr by simp_all
    moreover from this have "\<forall>k. cached s' k = cached s k" by (auto intro: cached_cong)
    moreover have "docs (colls s' c) = filter (\<lambda>d. \<not> matches (priv_get_store_vals cls (priv_get_all_args cls args kwargs)) d)
                     (docs (colls s c))" using s' fr(5)[of c] by simp
    moreover have "calls s' = calls s1 @
              [DeleteMany c (priv_get_store_vals cls (priv_get_all_args cls args kwargs))]"
      using s' by simp
    ultimately show ?thesis by (simp add: g Inr r)
  qed
qed

theorem delete_all_keeps_cache_witness:
  "cached (snd (delete_all person [] [(''name'', PStr ''ann'')] world2)) (ObjectId 0) = Some 0 \<and>
   docs (colls (snd (delete_all person [] [(''name'', PStr ''ann'')] world2)) person_coll) =
     [[(''name'', PStr ''bob''), (''age'', PInt 0), (''_id'', ObjectId 1)]]"
proof -
  have c: "cached world2 (ObjectId 0) = Some 0"
    by (simp add: cached_def deref_def world2_def)
  have f: "filter (\<lambda>d. \<not> matches (priv_get_store_vals person
                (priv_get_all_args person [] [(''name'', PStr ''ann'')])) d)
             (docs (colls world2 person_coll)) =
           [[(''name'', PStr ''bob''), (''age'', PInt 0), (''_id'', ObjectId 1)]]"
    by (simp add: matches_def priv_get_store_vals_def priv_get_all_args_def dict_update_def
        person_def world2_def dict_get_def)
  from delete_all_keeps_cache[OF surjective_pairing, of person "[]" "[(''name'', PStr ''ann'')]" world2]
  show ?thesis by (simp add: c f world2_resolves)
qed

section \<open>Deleting an instance twice\<close>



section \<open>Resolving the collection\<close>

text \<open>
  With a database bound, \<open>get_collection\<close> always answers with the collection named
  after the class: its second test is not an \<open>elif\<close>, so a collection bound with
  \<open>set_collection\<close> is overridden there.
\<close>

lemma get_collection_database_first:
  "DATABASE s = Some db \<Longrightarrow> fst (get_collection cls s) = Inr (Collection db (cls_name cls))"
  by (simp add: get_collection_def Let_def)

text \<open>
  Claim C2, as the code has it. With no database bound, \<open>get_collection\<close> returns the
  explicitly bound collection, and raises \<open>NoCollection\<close> when there is none; with no
  explicit collection it returns the collection named after the class in the bound
  database, and raises \<open>NoCollection\<close> when there is none; a failing call changes
  nothing. \<open>get_collection\<close> never changes the binding itself, so a second call resolves
  the same collection.
\<close>

theorem get_collection_resolution:
  assumes "get_collection cls s = (r, s')"
  shows "(DATABASE s = None \<longrightarrow>
            r = (case COLLECTION s of Some c \<Rightarrow> Inr c | None \<Rightarrow> Inl NoCollection)) \<and>
         (COLLECTION s = None \<longrightarrow>
            r = (case DATABASE s of
                   Some db \<Rightarrow> Inr (Collection db (cls_name cls))
                 | None \<Rightarrow> Inl NoCollection)) \<and>
         (DATABASE s = None \<and> COLLECTION s = None \<longrightarrow> s' = s) \<and>
         DATABASE s' = DATABASE s \<and> COLLECTION s' = COLLECTION s \<and>
         fst (get_collection cls s') = r"
proof -
  have A: "DATABASE s' = DATABASE s" "COLLECTION s' = COLLECTION s"
    using get_collection_frame[OF assms] by simp_all
  have B: "fst (get_collection cls t) = fst (get_collection cls s)"
    if "DATABASE t = DATABASE s" "COLLECTION t = COLLECTION s" for t
    using that by (simp add: get_collection_def Let_def split: option.splits)
  have C: "r = fst (get_collection cls s)" by (simp add: assms)
  have D: "DATABASE s = None \<and> COLLECTION s = None \<longrightarrow> s' = s"
    using assms by (auto simp: get_collection_def Let_def)
  show ?thesis unfolding C using A B[OF A] D
    by (auto simp: get_collection_def Let_def split: option.splits)
qed

theorem get_collection_resolution_witness:
  "fst (get_collection person world_explicit) = Inr coll_a \<and>
   fst (get_collection person world0) = Inr person_coll \<and>
   fst (get_collection person (snd (get_collection person world0))) = Inr person_coll"
proof -
  have e: "DATABASE world_explicit = None" "COLLECTION world_explicit = Some coll_a"
    by (simp_all add: world_explicit_def)
  have z: "DATABASE world0 = Some (Database ''localhost'' ''db'')" "COLLECTION world0 = None"
    "cls_name person = ''Person''"
    by (simp_all add: world0_def person_def)
  from get_collection_resolution[OF surjective_pairing, where cls = person and s = world_explicit]
       get_collection_resolution[OF surjective_pairing, where cls = person and s = world0]
  show ?thesis by (simp add: e z person_coll_def)
qed

text \<open>
  Claim C2 as stated does not hold. The binding is not frozen by its first use: after
  \<open>get_collection\<close> has resolved \<open>coll_a\<close>, \<open>set_collection\<close> succeeds and the next
  \<open>get_collection\<close> resolves \<open>coll_b\<close>. And with both a collection and a database bound,
  the explicitly bound \<open>coll_a\<close> is not what \<open>get_collection\<close> returns.
\<close>

theorem get_collection_rebinding_counterexample:
  "fst (get_collection person world_explicit) = Inr coll_a \<and>
   fst (set_collection (Handle coll_b) (snd (get_collection person world_explicit))) = Inr () \<and>
   fst (get_collection person
          (snd (set_collection (Handle coll_b) (snd (get_collection person world_explicit)))))
     = Inr coll_b \<and>
   coll_b \<noteq> coll_a \<and>
   COLLECTION world_both = Some coll_a \<and>
   fst (get_collection person world_both) = Inr person_coll \<and>
   person_coll \<noteq> coll_a"
  by (simp add: get_collection_def Let_def world_explicit_def world_both_def world0_def
      coll_a_def coll_b_def person_coll_def person_def priv_init_collection_def)

section \<open>Key fields at class definition\<close>

text \<open>
  Once \<open>_KEY_FIELD\<close> differs from \<open>'_id'\<close>, any further key-marked field raises
  \<open>MultipleKeys\<close>. So for a class none of whose key-marked fields is named \<open>_id\<close>, the
  scan raises exactly when there are two or more of them, and otherwise ends with the
  one key-marked field, or with \<open>'_id'\<close>.
\<close>

lemma scan_keys_after_key:
  "kf \<noteq> ''_id'' \<Longrightarrow>
     scan_keys annos kf = (if key_fields annos = [] then Inr kf else Inl MultipleKeys)"
  by (induction annos kf rule: scan_keys.induct) (auto simp: key_fields_def)

lemma scan_keys_without_id_key:
  "''_id'' \<notin> set (key_fields annos) \<Longrightarrow>
     scan_keys annos ''_id'' =
       (case key_fields annos of
          [] \<Rightarrow> Inr ''_id''
        | [k] \<Rightarrow> Inr k
        | k # k' # ks \<Rightarrow> Inl MultipleKeys)"
proof (induction annos)
  case Nil
  then show ?case by (simp add: key_fields_def)
next
  case (Cons p annos)
  obtain a v where p: "p = (a, v)" by (cases p)
  show ?case
  proof (cases v)
    case (Key t)
    with Cons.prems p have "a \<noteq> ''_id''" by (auto simp: key_fields_def)
    with Key p show ?thesis
      by (simp add: scan_keys_after_key) (auto simp: key_fields_def split: list.splits)
  qed (use Cons p in \<open>auto simp: key_fields_def\<close>)
qed

text \<open>
  Claim C3. A class that declares more than one key-marked field must fail with
  \<open>MultipleKeys\<close>. The class below declares two, \<open>_id\<close> and \<open>name\<close>; its definition
  succeeds and \<open>name\<close> becomes the key field, because after the first of them
  \<open>_KEY_FIELD\<close> is still \<open>'_id'\<close>, the value the test takes for "no key yet".
\<close>

theorem multiple_keys_missed:
  "key_fields (annotations two_key_class) = [''_id'', ''name''] \<and>
   fst (init_subclass two_key_class None None world0) = Inr () \<and>
   KEY_FIELD (snd (init_subclass two_key_class None None world0)) = ''name''"
  by (simp add: init_subclass_def two_key_class_def world0_def key_fields_def Let_def)

section \<open>Dictionaries\<close>

lemma dict_update_keys: "fst ` set (dict_update d u) = fst ` set d \<union> fst ` set u"
  unfolding dict_update_def
proof (induction u arbitrary: d)
  case Nil
  show ?case by simp
next
  case (Cons p u)
  obtain k v where p: "p = (k, v)" by (cases p)
  have "fst ` set (fold (\<lambda>(k, v). AList.update k v) u (AList.update k v d)) =
          fst ` set (AList.update k v d) \<union> fst ` set u"
    by (rule Cons.IH)
  then show ?case by (simp add: p AList.dom_update Un_assoc insert_commute)
qed

lemma map_of_rev_distinct: "distinct (map fst xs) \<Longrightarrow> map_of (rev xs) = map_of xs"
proof (induction xs)
  case Nil
  show ?case by simp
next
  case (Cons p xs)
  obtain k v where p: "p = (k, v)" by (cases p)
  from Cons.prems p have "map_of xs k = None" by (simp add: map_of_eq_None_iff)
  moreover from Cons have "map_of (rev xs) = map_of xs" by simp
  ultimately show ?case
    by (auto simp: p fun_eq_iff map_add_def split: option.splits)
qed

lemma map_of_dict_update:
  "map_of (dict_update d u) = map_of d ++ map_of (rev u)"
  unfolding dict_update_def
  by (induction u arbitrary: d) (auto simp: AList.update_conv')

lemma map_of_dict_update_other:
  "k \<notin> fst ` set u \<Longrightarrow> map_of (dict_update d u) k = map_of d k"
  by (simp add: map_of_dict_update map_add_def map_of_eq_None_iff[THEN iffD2] split: option.splits)

lemma map_of_dict_update_new:
  "distinct (map fst u) \<Longrightarrow> (k, v) \<in> set u \<Longrightarrow> map_of (dict_update d u) k = Some v"
  by (simp add: map_of_dict_update map_add_def map_of_rev_distinct)

lemma init_fields_keys:
  "fst ` set (fold (\<lambda>key d. AList.update key (f key) d) ks d0) = fst ` set d0 \<union> set ks"
  by (induction ks arbitrary: d0) (auto simp: AList.dom_update)

lemma zip_keys_subset: "fst ` set (zip ks vs) \<subseteq> set ks"
  by (auto dest: set_zip_leftD)

section \<open>get_or_create\<close>

text \<open>
  The constructor registers the instance under \<open>self._id\<close>. When \<open>_id\<close> is neither a
  keyword, nor an annotated field, nor a class attribute, that lookup raises.
\<close>

lemma init_inst_no_id:
  assumes "''_id'' \<notin> fst ` set kwargs" and "''_id'' \<notin> fst ` set (annotations cls)"
    and "''_id'' \<notin> fst ` set (class_dict cls)"
  shows "init_inst cls args kwargs s = (Inl AttributeError, s\<lparr>objs := objs s @ [None]\<rparr>)"
proof -
  let ?ks = "map fst (annotations cls)"
  let ?d = "dict_update (fold (\<lambda>key d. AList.update key (dict_get (class_dict cls) key) d) ?ks [])
              (dict_update (zip ?ks args) kwargs)"
  have "''_id'' \<notin> fst ` set ?d"
    using assms(1,2) zip_keys_subset[of ?ks args]
    by (auto simp: dict_update_keys init_fields_keys)
  then have "map_of ?d ''_id'' = None" by (simp add: map_of_eq_None_iff)
  moreover have "map_of (class_dict cls) ''_id'' = None"
    using assms(3) by (simp add: map_of_eq_None_iff)
  ultimately show ?thesis by (simp add: init_inst_def getattr_id_def Let_def)
qed

lemma get_or_create_found:
  "find_one cls args kwargs s = (Inr (Some a), s1) \<Longrightarrow>
     get_or_create cls args kwargs s = (Inr a, s1)"
  by (simp add: get_or_create_def)

lemma get_or_create_miss_raises:
  assumes "find_one cls args kwargs s = (Inr None, s1)"
    and "''self'' \<notin> fst ` set kwargs"
    and "''_id'' \<notin> fst ` set kwargs" and "''_id'' \<notin> fst ` set (annotations cls)"
    and "''_id'' \<notin> fst ` set (class_dict cls)"
  shows "get_or_create cls args kwargs s = (Inl AttributeError, s1\<lparr>objs := objs s1 @ [None]\<rparr>)"
  using assms(2) by (simp add: get_or_create_def assms(1) construct_def init_inst_no_id[OF assms(3-5)])

text \<open>
  Claim C6. When no document matches, \<open>get_or_create\<close> should construct and return an
  instance from the given values. For the example class and an empty collection,
  \<open>find_one\<close> finds nothing and the constructor call then raises \<open>AttributeError\<close>: no
  instance is returned.
\<close>

theorem get_or_create_miss_attribute_error:
  "fst (find_one person [] [(''name'', PStr ''ann'')] world0) = Inr None \<and>
   fst (get_or_create person [] [(''name'', PStr ''ann'')] world0) = Inl AttributeError"
proof -
  have f: "find_one person [] [(''name'', PStr ''ann'')] world0 =
      (Inr None, snd (find_one person [] [(''name'', PStr ''ann'')] world0))"
    by (simp add: find_one_def get_collection_def Let_def person_def world0_def
        priv_init_collection_def unique_or_key_def create_index_def record_call_def
        coll_find_one_def)
  have "get_or_create person [] [(''name'', PStr ''ann'')] world0 =
      (Inl AttributeError, (snd (find_one person [] [(''name'', PStr ''ann'')] world0))
          \<lparr>objs := objs (snd (find_one person [] [(''name'', PStr ''ann'')] world0)) @ [None]\<rparr>)"
    by (rule get_or_create_miss_raises[OF f]) (simp_all add: person_def)
  then show ?thesis using f by (metis fst_conv)
qed

section \<open>update\<close>

lemma replace_first_map:
  "List.find P ds = Some d \<Longrightarrow> f d' = f d \<Longrightarrow> map f (replace_first P d' ds) = map f ds"
  by (induction ds) (auto split: if_splits)

lemma update_one_frame:
  assumes "update_one c flt upd s = (r, s')"
  shows "objs s' = objs s" and "WEAKREFS s' = WEAKREFS s"
    and "calls s' = calls s @ [UpdateOne c flt upd]"
    and "\<And>e c'. r = Inl e \<Longrightarrow> docs (colls s' c') = docs (colls s c')"
    and "r = Inl e \<Longrightarrow> e = WriteError \<or> e = DuplicateKeyError"
  using assms
  by (auto simp: update_one_def Let_def split: option.splits if_splits)

lemma update_one_other_fields:
  assumes "update_one c flt upd s = (r, s')" and "k \<notin> fst ` set upd"
  shows "map (\<lambda>d. map_of d k) (docs (colls s' c')) = map (\<lambda>d. map_of d k) (docs (colls s c'))"
proof (cases "List.find (matches flt) (docs (colls s c))")
  case None
  with assms show ?thesis by (auto simp: update_one_def Let_def)
next
  case (Some d)
  have eq: "map_of (dict_update d upd) k = map_of d k"
    using assms(2) by (rule map_of_dict_update_other)
  have "map (\<lambda>d. map_of d k) (replace_first (matches flt) (dict_update d upd) (docs (colls s c))) =
        map (\<lambda>d. map_of d k) (docs (colls s c))"
    using Some eq by (rule replace_first_map)
  with assms(1) Some show ?thesis
    by (auto simp: update_one_def Let_def split: if_splits)
qed

lemma store_vals_keys [simp]: "map fst (priv_get_store_vals cls d) = map fst d"
  by (induction d) (auto simp: priv_get_store_vals_def)

lemma declared_keys:
  "fst ` set (declared cls kwargs) = fst ` set kwargs \<inter> fst ` set (annotations cls)"
  by (force simp: declared_def)

lemma declared_distinct: "distinct (map fst kwargs) \<Longrightarrow> distinct (map fst (declared cls kwargs))"
  by (simp add: declared_def distinct_map_filter)

text \<open>The shape of a run of update with at least one declared field.\<close>

lemma update_run:
  assumes "deref s a = Some inst" and "declared cls kwargs \<noteq> []"
    and "update cls a kwargs s = (r, s')"
  obtains
    (no_collection) e s1 where
      "get_collection cls (s\<lparr>objs := (objs s)[a := Some (dict_update inst (declared cls kwargs))]\<rparr>)
         = (Inl e, s1)" "r = Inl (translate e)" "s' = s1"
  | (no_id) c s1 e where
      "get_collection cls (s\<lparr>objs := (objs s)[a := Some (dict_update inst (declared cls kwargs))]\<rparr>)
         = (Inr c, s1)"
      "getattr_id cls (dict_update inst (declared cls kwargs)) = Inl e" "r = Inl (translate e)" "s' = s1"
  | (written) c s1 i r2 where
      "get_collection cls (s\<lparr>objs := (objs s)[a := Some (dict_update inst (declared cls kwargs))]\<rparr>)
         = (Inr c, s1)"
      "getattr_id cls (dict_update inst (declared cls kwargs)) = Inr i"
      "update_one c [(''_id'', i)] (priv_get_store_vals cls (declared cls kwargs)) s1 = (r2, s')"
      "r = (case r2 of Inl e \<Rightarrow> Inl (translate e) | Inr u \<Rightarrow> Inr ())"
proof -
  let ?s0 = "s\<lparr>objs := (objs s)[a := Some (dict_update inst (declared cls kwargs))]\<rparr>"
  obtain r1 s1 where g: "get_collection cls ?s0 = (r1, s1)" by (cases "get_collection cls ?s0")
  show thesis
  proof (cases r1)
    case (Inl e)
    with g assms have "r = Inl (translate e)" "s' = s1" by (auto simp: update_def Let_def)
    with g Inl show thesis by (auto intro: no_collection)
  next
    case c: (Inr c)
    show thesis
    proof (cases "getattr_id cls (dict_update inst (declared cls kwargs))")
      case (Inl e)
      with g c assms have "r = Inl (translate e)" "s' = s1" by (auto simp: update_def Let_def)
      with g c Inl show thesis by (auto intro: no_id)
    next
      case (Inr i)
      obtain r2 s2 where u: "update_one c [(''_id'', i)] (priv_get_store_vals cls (declared cls kwargs)) s1 = (r2, s2)"
        by (cases "update_one c [(''_id'', i)] (priv_get_store_vals cls (declared cls kwargs)) s1")
      with g c Inr assms have "s' = s2" "r = (case r2 of Inl e \<Rightarrow> Inl (translate e) | Inr u \<Rightarrow> Inr ())"
        by (auto simp: update_def Let_def split: sum.splits)
      with g c Inr u show thesis by (auto intro: written)
    qed
  qed
qed

lemma deref_written:
  "deref s a = Some inst \<Longrightarrow> deref (s\<lparr>objs := (objs s)[a := Some inst']\<rparr>) a = Some inst'"
  by (auto simp: deref_def split: if_splits)

lemma update_in_memory:
  assumes "deref s a = Some inst" and "update cls a kwargs s = (r, s')"
  shows "deref s' a = Some (dict_update inst (declared cls kwargs))"
proof (cases "declared cls kwargs = []")
  case True
  with assms show ?thesis by (simp add: update_def dict_update_def)
next
  case False
  let ?s0 = "s\<lparr>objs := (objs s)[a := Some (dict_update inst (declared cls kwargs))]\<rparr>"
  have d0: "deref ?s0 a = Some (dict_update inst (declared cls kwargs))"
    using assms(1) by (rule deref_written)
  from assms(1) False assms(2) show ?thesis
  proof (cases rule: update_run)
    case (no_collection e s1)
    from get_collection_frame(1)[OF no_collection(1)] no_collection(3)
    have "objs s' = objs ?s0" by simp
    from deref_cong[OF this] d0 show ?thesis by simp
  next
    case (no_id c s1 e)
    from get_collection_frame(1)[OF no_id(1)] no_id(4)
    have "objs s' = objs ?s0" by simp
    from deref_cong[OF this] d0 show ?thesis by simp
  next
    case (written c s1 i r2)
    from get_collection_frame(1)[OF written(1)] update_one_frame(1)[OF written(3)]
    have "objs s' = objs ?s0" by simp
    from deref_cong[OF this] d0 show ?thesis by simp
  qed
qed

lemma get_collection_calls:
  assumes "get_collection cls s = (r, s')"
  shows "\<exists>xs. calls s' = calls s @ xs \<and> (\<forall>x \<in> set xs. \<exists>c f. x = CreateIndex c f)"
proof (cases r)
  case (Inl e)
  with assms have "s' = s" by (auto dest: get_collection_Inl)
  then show ?thesis by simp
next
  case (Inr c)
  with assms have "s' = (if COLLECTION_INITIALIZED s then s else priv_init_collection cls c s)"
    by (auto dest: get_collection_Inr)
  then show ?thesis by (cases "COLLECTION_INITIALIZED s") auto
qed

lemma getattr_id_error: "getattr_id cls inst = Inl e \<Longrightarrow> e = AttributeError"
  by (auto simp: getattr_id_def split: option.splits)

lemma world2_bob: "deref world2 1 =
    Some [(''name'', PStr ''bob''), (''age'', PInt 0), (''_id'', ObjectId 1), (''___internal___'', PBool True)]"
  by (simp add: deref_def world2_def)

lemma world2_aged_ann: "deref world2_aged 0 =
    Some [(''name'', PStr ''ann''), (''age'', PInt 99), (''_id'', ObjectId 0), (''___internal___'', PBool True)]"
  by (simp add: world2_aged_def setattr_def world2_ann) (simp add: deref_def world2_def)

lemma update_one_result:
  "fst (update_one c flt upd s) = Inl DuplicateKeyError \<or>
   fst (update_one c flt upd s) = Inl WriteError \<or>
   fst (update_one c flt upd s) = Inr ()"
  by (simp add: update_one_def Let_def split: option.splits)

lemma update_one_docs:
  assumes "List.find (matches flt) (docs (colls s c)) = Some d"
    and "fst (update_one c flt upd s) = Inr ()"
  shows "docs (colls (snd (update_one c flt upd s)) c) =
           replace_first (matches flt) (dict_update d upd) (docs (colls s c))"
  using assms by (simp add: update_one_def Let_def split: if_splits)

text \<open>
  Claim C5. \<open>update\<close> keeps of the passed fields those declared on the class. The
  instance takes these values in memory. With no declared field passed nothing happens
  at all. Otherwise \<open>update\<close> resolves the collection, and an error raised there goes
  through the handler and ends the call; it then reads \<open>self._id\<close>, and without one the
  call ends with \<open>AttributeError\<close>; and it then issues one \<open>update_one\<close> call, whose
  filter is the instance's \<open>_id\<close> and whose \<open>$set\<close> document holds exactly the declared
  passed fields. The state \<open>update\<close> leaves is the state this call leaves; \<open>update\<close>
  returns normally when the store accepts the write, and the stored document with that
  \<open>_id\<close> then is the old one with the declared passed fields laid over it; \<open>update\<close> raises
  \<open>UniqueConflict\<close> exactly when the call raises the duplicate-key error. Every call
  \<open>update\<close> makes to the store is an index creation (first use of the collection) or that
  \<open>update_one\<close> call, and a successful update ends with it. For every other field, the
  value stored in each document of each collection is what it was before the call,
  whatever the instance holds in memory.
\<close>

theorem update_partial_write:
  assumes "deref s a = Some inst" and "update cls a kwargs s = (r, s')"
  shows "fst ` set (declared cls kwargs) = fst ` set kwargs \<inter> fst ` set (annotations cls) \<and>
         deref s' a = Some (dict_update inst (declared cls kwargs)) \<and>
         (distinct (map fst kwargs) \<longrightarrow>
            (\<forall>(k, v) \<in> set (declared cls kwargs).
               map_of (dict_update inst (declared cls kwargs)) k = Some v)) \<and>
         (declared cls kwargs = [] \<longrightarrow> s' = s \<and> r = Inr ()) \<and>
         (\<exists>xs. calls s' = calls s @ xs \<and>
            (\<forall>x \<in> set xs.
               (\<exists>c f. x = CreateIndex c f) \<or>
               (\<exists>c i. x = UpdateOne c [(''_id'', i)]
                              (priv_get_store_vals cls (declared cls kwargs))))) \<and>
         (declared cls kwargs \<noteq> [] \<and> r = Inr () \<longrightarrow>
            (\<exists>c i. last (calls s') =
               UpdateOne c [(''_id'', i)] (priv_get_store_vals cls (declared cls kwargs)))) \<and>
         (\<forall>c k. k \<notin> fst ` set kwargs \<inter> fst ` set (annotations cls) \<longrightarrow>
            map (\<lambda>d. map_of d k) (docs (colls s' c)) = map (\<lambda>d. map_of d k) (docs (colls s c))) \<and>
         (\<forall>e s1. declared cls kwargs \<noteq> [] \<and>
            get_collection cls
              (s\<lparr>objs := (objs s)[a := Some (dict_update inst (declared cls kwargs))]\<rparr>)
                = (Inl e, s1) \<longrightarrow>
            r = Inl (translate e) \<and> s' = s1) \<and>
         (\<forall>c s1 e. declared cls kwargs \<noteq> [] \<and>
            get_collection cls
              (s\<lparr>objs := (objs s)[a := Some (dict_update inst (declared cls kwargs))]\<rparr>)
                = (Inr c, s1) \<and>
            getattr_id cls (dict_update inst (declared cls kwargs)) = Inl e \<longrightarrow>
            r = Inl e \<and> e = AttributeError \<and> s' = s1) \<and>
         (\<forall>c s1 i. declared cls kwargs \<noteq> [] \<and>
            get_collection cls
              (s\<lparr>objs := (objs s)[a := Some (dict_update inst (declared cls kwargs))]\<rparr>)
                = (Inr c, s1) \<and>
            getattr_id cls (dict_update inst (declared cls kwargs)) = Inr i \<longrightarrow>
            s' = snd (update_one c [(''_id'', i)]
                        (priv_get_store_vals cls (declared cls kwargs)) s1) \<and>
            calls s' = calls s1 @
              [UpdateOne c [(''_id'', i)] (priv_get_store_vals cls (declared cls kwargs))] \<and>
            r = (case fst (update_one c [(''_id'', i)]
                             (priv_get_store_vals cls (declared cls kwargs)) s1) of
                   Inl e \<Rightarrow> Inl (translate e)
                 | Inr u \<Rightarrow> Inr ()) \<and>
            (r = Inl UniqueConflict \<longleftrightarrow>
               fst (update_one c [(''_id'', i)]
                      (priv_get_store_vals cls (declared cls kwargs)) s1)
                 = Inl DuplicateKeyError) \<and>
            (\<forall>d. List.find (matches [(''_id'', i)]) (docs (colls s1 c)) = Some d \<and> r = Inr ()
               \<longrightarrow> docs (colls s' c) =
                     replace_first (matches [(''_id'', i)])
                       (dict_update d (priv_get_store_vals cls (declared cls kwargs)))
                       (docs (colls s1 c))))"
    (is "?K \<and> ?M \<and> ?V \<and> ?E \<and> ?C \<and> ?L \<and> ?F \<and> ?G1 \<and> ?G2 \<and> ?W")
proof -
  let ?upd = "declared cls kwargs"
  let ?s0 = "s\<lparr>objs := (objs s)[a := Some (dict_update inst ?upd)]\<rparr>"
  have K: ?K by (rule declared_keys)
  have M: ?M using assms by (rule update_in_memory)
  have V: ?V by (auto intro: map_of_dict_update_new declared_distinct)
  have E: ?E using assms by (auto simp: update_def Let_def)
  have CLF: "?C \<and> ?L \<and> ?F"
  proof (cases "?upd = []")
    case True
    with E show ?thesis by simp
  next
    case False
    have c0: "calls ?s0 = calls s" and d0: "\<And>c. docs (colls ?s0 c) = docs (colls s c)" by simp_all
    from assms(1) False assms(2) show ?thesis
    proof (cases rule: update_run)
      case (no_collection e s1)
      from get_collection_Inl[OF no_collection(1)] have s1: "s1 = ?s0" by simp
      have C: ?C using no_collection(3) s1 by simp
      have L: ?L using no_collection(2) by simp
      have F: ?F using no_collection(3) s1 by simp
      from C L F show ?thesis by blast
    next
      case (no_id c s1 e)
      from get_collection_calls[OF no_id(1)] have C: ?C using no_id(4) c0 by auto
      have L: ?L using no_id(3) by simp
      have F: ?F using get_collection_frame(5)[OF no_id(1)] no_id(4) d0 by simp
      from C L F show ?thesis by blast
    next
      case (written c s1 i r2)
      note uf = update_one_frame[OF written(3)]
      from get_collection_calls[OF written(1)] obtain xs where
        xs: "calls s1 = calls s @ xs" "\<forall>x \<in> set xs. \<exists>c f. x = CreateIndex c f"
        using c0 by auto
      have cs: "calls s' = calls s @ (xs @ [UpdateOne c [(''_id'', i)] (priv_get_store_vals cls ?upd)])"
        using uf(3) xs(1) by simp
      have C: ?C
        apply (rule exI[of _ "xs @ [UpdateOne c [(''_id'', i)] (priv_get_store_vals cls ?upd)]"])
        using cs xs(2) by auto
      have L: ?L using cs by auto
      have F: ?F
      proof (intro allI impI)
        fix c' k assume "k \<notin> fst ` set kwargs \<inter> fst ` set (annotations cls)"
        then have "k \<notin> fst ` set (priv_get_store_vals cls ?upd)"
          using K store_vals_keys[of cls ?upd] by (metis set_map)
        from update_one_other_fields[OF written(3) this, of c']
        show "map (\<lambda>d. map_of d k) (docs (colls s' c')) = map (\<lambda>d. map_of d k) (docs (colls s c'))"
          using get_collection_frame(5)[OF written(1), of c'] d0[of c'] by simp
      qed
      from C L F show ?thesis by blast
    qed
  qed
  have G1: ?G1
  proof (intro allI impI, elim conjE)
    fix e s1
    assume ne: "?upd \<noteq> []" and g: "get_collection cls ?s0 = (Inl e, s1)"
    from assms ne g show "r = Inl (translate e) \<and> s' = s1"
      by (auto simp: update_def Let_def)
  qed
  have G2: ?G2
  proof (intro allI impI, elim conjE)
    fix c s1 e
    assume ne: "?upd \<noteq> []" and g: "get_collection cls ?s0 = (Inr c, s1)"
      and i: "getattr_id cls (dict_update inst ?upd) = Inl e"
    from getattr_id_error[OF i] have e: "e = AttributeError" .
    from assms ne g i e show "r = Inl e \<and> e = AttributeError \<and> s' = s1"
      by (auto simp: update_def Let_def translate_def)
  qed
  have W: ?W
  proof (intro allI impI, elim conjE)
    fix c s1 i
    let ?u = "update_one c [(''_id'', i)] (priv_get_store_vals cls ?upd) s1"
    assume ne: "?upd \<noteq> []" and g: "get_collection cls ?s0 = (Inr c, s1)"
      and i: "getattr_id cls (dict_update inst ?upd) = Inr i"
    have u: "update cls a kwargs s =
               (case ?u of (Inl e, s2) \<Rightarrow> (Inl (translate e), s2) | (Inr u, s2) \<Rightarrow> (Inr (), s2))"
      using assms(1) ne by (simp add: update_def Let_def g i)
    have s': "s' = snd ?u" using u assms(2) by (auto split: prod.splits sum.splits)
    have r: "r = (case fst ?u of Inl e \<Rightarrow> Inl (translate e) | Inr u \<Rightarrow> Inr ())"
      using u assms(2) by (auto split: prod.splits sum.splits)
    have cs: "calls s' = calls s1 @ [UpdateOne c [(''_id'', i)] (priv_get_store_vals cls ?upd)]"
      unfolding s' by (rule update_one_frame(3)[OF surjective_pairing])
    have iff: "r = Inl UniqueConflict \<longleftrightarrow> fst ?u = Inl DuplicateKeyError"
      using update_one_result[of c "[(''_id'', i)]" "priv_get_store_vals cls ?upd" s1]
      unfolding r by (auto simp: translate_def)
    have dd: "\<forall>d. List.find (matches [(''_id'', i)]) (docs (colls s1 c)) = Some d \<and> r = Inr ()
               \<longrightarrow> docs (colls s' c) =
                     replace_first (matches [(''_id'', i)])
                       (dict_update d (priv_get_store_vals cls ?upd)) (docs (colls s1 c))"
    proof (intro allI impI, elim conjE)
      fix d assume f: "List.find (matches [(''_id'', i)]) (docs (colls s1 c)) = Some d"
        and ok: "r = Inr ()"
      from ok r update_one_result[of c "[(''_id'', i)]" "priv_get_store_vals cls ?upd" s1]
      have "fst ?u = Inr ()" by auto
      from update_one_docs[OF f this] show "docs (colls s' c) =
                     replace_first (matches [(''_id'', i)])
                       (dict_update d (priv_get_store_vals cls ?upd)) (docs (colls s1 c))"
        unfolding s' .
    qed
    from s' cs r iff dd
    show "s' = snd ?u \<and>
          calls s' = calls s1 @ [UpdateOne c [(''_id'', i)] (priv_get_store_vals cls ?upd)] \<and>
          r = (case fst ?u of Inl e \<Rightarrow> Inl (translate e) | Inr u \<Rightarrow> Inr ()) \<and>
          (r = Inl UniqueConflict \<longleftrightarrow> fst ?u = Inl DuplicateKeyError) \<and>
          (\<forall>d. List.find (matches [(''_id'', i)]) (docs (colls s1 c)) = Some d \<and> r = Inr ()
               \<longrightarrow> docs (colls s' c) =
                     replace_first (matches [(''_id'', i)])
                       (dict_update d (priv_get_store_vals cls ?upd)) (docs (colls s1 c)))"
      by (intro conjI)
  qed
  from K M V E CLF G1 G2 W show ?thesis by blast
qed

theorem update_partial_write_witness:
  "update person 0 [(''name'', PStr ''zed''), (''nick'', PStr ''z'')] world2_aged =
     (Inr (), snd (update person 0 [(''name'', PStr ''zed''), (''nick'', PStr ''z'')] world2_aged)) \<and>
   deref (snd (update person 0 [(''name'', PStr ''zed''), (''nick'', PStr ''z'')] world2_aged)) 0 =
     Some [(''name'', PStr ''zed''), (''age'', PInt 99), (''_id'', ObjectId 0),
           (''___internal___'', PBool True)] \<and>
   calls (snd (update person 0 [(''name'', PStr ''zed''), (''nick'', PStr ''z'')] world2_aged)) =
     calls world2_aged @ [UpdateOne person_coll [(''_id'', ObjectId 0)] [(''name'', PStr ''zed'')]] \<and>
   docs (colls (snd (update person 0 [(''name'', PStr ''zed''), (''nick'', PStr ''z'')] world2_aged))
        person_coll) =
     [[(''name'', PStr ''zed''), (''age'', PInt 0), (''_id'', ObjectId 0)],
      [(''name'', PStr ''bob''), (''age'', PInt 0), (''_id'', ObjectId 1)]]"
proof -
  let ?kw = "[(''name'', PStr ''zed''), (''nick'', PStr ''z'')]"
  let ?inst = "[(''name'', PStr ''ann''), (''age'', PInt 99), (''_id'', ObjectId 0),
                (''___internal___'', PBool True)]"
  let ?s0 = "world2_aged\<lparr>objs := (objs world2_aged)[0 := Some (dict_update ?inst (declared person ?kw))]\<rparr>"
  have dk: "declared person ?kw = [(''name'', PStr ''zed'')]"
    by (simp add: declared_def person_def)
  have ne: "declared person ?kw \<noteq> []" by (simp add: dk)
  have g: "get_collection person ?s0 = (Inr person_coll, ?s0)"
    by (simp add: get_collection_def Let_def person_def world2_aged_def setattr_def world2_ann
        person_coll_def) (simp add: world2_def)
  have i: "getattr_id person (dict_update ?inst (declared person ?kw)) = Inr (ObjectId 0)"
    by (simp add: dk dict_update_def getattr_id_def)
  have sv: "priv_get_store_vals person (declared person ?kw) = [(''name'', PStr ''zed'')]"
    unfolding dk by (simp add: priv_get_store_vals_def person_def)
  have ds: "docs (colls world2_aged person_coll) =
     [[(''name'', PStr ''ann''), (''age'', PInt 0), (''_id'', ObjectId 0)],
      [(''name'', PStr ''bob''), (''age'', PInt 0), (''_id'', ObjectId 1)]]"
    and ix: "indexes (colls world2_aged person_coll) = [''name'']"
    by (simp_all add: world2_aged_def setattr_def world2_ann) (simp_all add: world2_def)
  have cs0: "calls ?s0 = calls world2_aged" by simp
  have u: "fst (update_one person_coll [(''_id'', ObjectId 0)] [(''name'', PStr ''zed'')] ?s0) = Inr ()"
    by (simp add: update_one_def Let_def ds ix matches_def dict_get_def dict_update_def violates_def)
  have f: "List.find (matches [(''_id'', ObjectId 0)]) (docs (colls ?s0 person_coll)) =
             Some [(''name'', PStr ''ann''), (''age'', PInt 0), (''_id'', ObjectId 0)]"
    by (simp add: ds matches_def dict_get_def)
  note upw = update_partial_write[OF world2_aged_ann surjective_pairing, of person ?kw]
  note M = upw[THEN conjunct2, THEN conjunct1]
  note W = upw[THEN conjunct2, THEN conjunct2, THEN conjunct2, THEN conjunct2, THEN conjunct2,
      THEN conjunct2, THEN conjunct2, THEN conjunct2, THEN conjunct2, rule_format,
      of person_coll ?s0 "ObjectId 0", OF conjI[OF ne conjI[OF g i]]]
  have r: "fst (update person 0 ?kw world2_aged) = Inr ()"
    using W[THEN conjunct2, THEN conjunct2, THEN conjunct1] by (simp add: sv u)
  have c: "calls (snd (update person 0 ?kw world2_aged)) =
     calls world2_aged @ [UpdateOne person_coll [(''_id'', ObjectId 0)] [(''name'', PStr ''zed'')]]"
    using W[THEN conjunct2, THEN conjunct1] by (simp add: sv cs0)
  have d: "docs (colls (snd (update person 0 ?kw world2_aged)) person_coll) =
     [[(''name'', PStr ''zed''), (''age'', PInt 0), (''_id'', ObjectId 0)],
      [(''name'', PStr ''bob''), (''age'', PInt 0), (''_id'', ObjectId 1)]]"
    using W[THEN conjunct2, THEN conjunct2, THEN conjunct2, THEN conjunct2, rule_format,
        OF conjI[OF f r]]
    by (simp add: sv ds matches_def dict_get_def dict_update_def)
  have m: "deref (snd (update person 0 ?kw world2_aged)) 0 =
     Some [(''name'', PStr ''zed''), (''age'', PInt 99), (''_id'', ObjectId 0),
           (''___internal___'', PBool True)]"
    using M by (simp add: dk dict_update_def)
  have p: "update person 0 ?kw world2_aged = (Inr (), snd (update person 0 ?kw world2_aged))"
    using r by (metis prod.collapse)
  from p m c d show ?thesis by (intro conjI)
qed

text \<open>
  Claim C9. When \<open>update\<close> raises \<open>UniqueConflict\<close>, the error came from the store's
  \<open>update_one\<close>, no document of the store has changed, and the instance already holds
  the new values in memory: they were assigned before the write and are not rolled
  back.
\<close>

theorem update_not_atomic:
  assumes "deref s a = Some inst" and "update cls a kwargs s = (Inl UniqueConflict, s')"
  shows "declared cls kwargs \<noteq> [] \<and>
         deref s' a = Some (dict_update inst (declared cls kwargs)) \<and>
         (distinct (map fst kwargs) \<longrightarrow>
            (\<forall>(k, v) \<in> set (declared cls kwargs).
               map_of (dict_update inst (declared cls kwargs)) k = Some v)) \<and>
         (\<forall>c. docs (colls s' c) = docs (colls s c)) \<and>
         (\<exists>c s1 i.
            get_collection cls
              (s\<lparr>objs := (objs s)[a := Some (dict_update inst (declared cls kwargs))]\<rparr>)
                = (Inr c, s1) \<and>
            getattr_id cls (dict_update inst (declared cls kwargs)) = Inr i \<and>
            update_one c [(''_id'', i)] (priv_get_store_vals cls (declared cls kwargs)) s1
              = (Inl DuplicateKeyError, s'))"
proof -
  let ?upd = "declared cls kwargs"
  let ?s0 = "s\<lparr>objs := (objs s)[a := Some (dict_update inst ?upd)]\<rparr>"
  have N: "?upd \<noteq> []" using assms by (auto simp: update_def Let_def)
  have M: "deref s' a = Some (dict_update inst ?upd)" using assms by (rule update_in_memory)
  have V: "distinct (map fst kwargs) \<longrightarrow>
            (\<forall>(k, v) \<in> set ?upd. map_of (dict_update inst ?upd) k = Some v)"
    by (auto intro: map_of_dict_update_new declared_distinct)
  have d0: "\<And>c. docs (colls ?s0 c) = docs (colls s c)" by simp
  from assms(1) N assms(2)
  have "(\<forall>c. docs (colls s' c) = docs (colls s c)) \<and>
        (\<exists>c s1 i. get_collection cls ?s0 = (Inr c, s1) \<and>
            getattr_id cls (dict_update inst ?upd) = Inr i \<and>
            update_one c [(''_id'', i)] (priv_get_store_vals cls ?upd) s1
              = (Inl DuplicateKeyError, s'))"
  proof (cases rule: update_run)
    case (no_collection e s1)
    from get_collection_Inl[OF no_collection(1)] no_collection(2) show ?thesis
      by (simp add: translate_def)
  next
    case (no_id c s1 e)
    from getattr_id_error[OF no_id(2)] no_id(3) show ?thesis by (simp add: translate_def)
  next
    case (written c s1 i r2)
    note uf = update_one_frame[OF written(3)]
    from written(4) obtain e where r2: "r2 = Inl e" and e: "translate e = UniqueConflict"
      by (cases r2) auto
    from uf(5)[OF r2] e have e': "e = DuplicateKeyError" by (auto simp: translate_def)
    have "\<forall>c'. docs (colls s' c') = docs (colls s c')"
      using uf(4)[OF r2] get_collection_frame(5)[OF written(1)] d0 by simp
    then show ?thesis using written(1,2,3) r2 e' by blast
  qed
  with N M V show ?thesis by blast
qed

theorem update_not_atomic_witness:
  "fst (update person 1 [(''name'', PStr ''ann'')] world2) = Inl UniqueConflict \<and>
   deref (snd (update person 1 [(''name'', PStr ''ann'')] world2)) 1 =
     Some [(''name'', PStr ''ann''), (''age'', PInt 0), (''_id'', ObjectId 1),
           (''___internal___'', PBool True)] \<and>
   docs (colls (snd (update person 1 [(''name'', PStr ''ann'')] world2)) person_coll) =
     [[(''name'', PStr ''ann''), (''age'', PInt 0), (''_id'', ObjectId 0)],
      [(''name'', PStr ''bob''), (''age'', PInt 0), (''_id'', ObjectId 1)]]"
proof -
  have dk: "declared person [(''name'', PStr ''ann'')] = [(''name'', PStr ''ann'')]"
    by (simp add: declared_def person_def)
  have u: "update person 1 [(''name'', PStr ''ann'')] world2 =
      (Inl UniqueConflict, snd (update person 1 [(''name'', PStr ''ann'')] world2))"
    by (simp add: update_def deref_def declared_def Let_def dict_update_def get_collection_def
        person_def world2_def person_coll_def getattr_id_def update_one_def
        priv_get_store_vals_def matches_def dict_get_def violates_def translate_def record_call_def)
  have d: "docs (colls world2 person_coll) =
     [[(''name'', PStr ''ann''), (''age'', PInt 0), (''_id'', ObjectId 0)],
      [(''name'', PStr ''bob''), (''age'', PInt 0), (''_id'', ObjectId 1)]]"
    by (simp add: world2_def)
  have f: "fst (update person 1 [(''name'', PStr ''ann'')] world2) = Inl UniqueConflict"
    using u by (metis fst_conv)
  from update_not_atomic[OF world2_bob u] f show ?thesis
    by (simp add: dk dict_update_def d)
qed

section \<open>new\<close>

lemma distinct_dict_update:
  "distinct (map fst d) \<Longrightarrow> distinct (map fst (dict_update d u))"
  unfolding dict_update_def
  by (induction u arbitrary: d) (auto simp: AList.distinct_update)

lemma map_of_init_fields:
  "map_of (fold (\<lambda>key d. AList.update key (f key) d) ks d0) k =
     (if k \<in> set ks then Some (f k) else map_of d0 k)"
  by (induction ks arbitrary: d0) (auto simp: AList.update_conv')

lemma map_of_kwargs_dict:
  "distinct (map fst kwargs) \<Longrightarrow> map_of (dict_update [] kwargs) = map_of kwargs"
  by (simp add: map_of_dict_update map_of_rev_distinct)

text \<open>The instance dictionary that the constructor builds from keywords only.\<close>

lemma init_inst_kwargs:
  assumes "distinct (map fst kwargs)" and "map_of kwargs ''_id'' = Some i"
  shows "\<exists>inst. init_inst cls [] kwargs s =
           (Inr (length (objs s)),
            s\<lparr>objs := objs s @ [Some inst], WEAKREFS := (WEAKREFS s)(i \<mapsto> length (objs s))\<rparr>) \<and>
          (\<forall>k. map_of inst k =
             (case map_of kwargs k of
                Some v \<Rightarrow> Some v
              | None \<Rightarrow> if k \<in> fst ` set (annotations cls)
                        then Some (dict_get (class_dict cls) k) else None))"
proof -
  let ?d0 = "fold (\<lambda>key d. AList.update key (dict_get (class_dict cls) key) d)
                  (map fst (annotations cls)) []"
  let ?vals = "dict_update [] kwargs"
  let ?inst = "dict_update ?d0 ?vals"
  have dv: "distinct (map fst ?vals)" by (rule distinct_dict_update) simp
  have m: "map_of ?inst = map_of ?d0 ++ map_of kwargs"
    using map_of_rev_distinct[OF dv] map_of_kwargs_dict[OF assms(1)]
    by (simp only: map_of_dict_update[of ?d0 ?vals])
  have mk: "map_of ?inst k =
             (case map_of kwargs k of
                Some v \<Rightarrow> Some v
              | None \<Rightarrow> if k \<in> fst ` set (annotations cls)
                        then Some (dict_get (class_dict cls) k) else None)" for k
    by (simp add: m map_add_def map_of_init_fields split: option.splits)
  have "getattr_id cls ?inst = Inr i"
    by (simp add: getattr_id_def mk assms(2))
  then have "init_inst cls [] kwargs s =
           (Inr (length (objs s)),
            s\<lparr>objs := objs s @ [Some ?inst], WEAKREFS := (WEAKREFS s)(i \<mapsto> length (objs s))\<rparr>)"
    by (simp add: init_inst_def Let_def)
  with mk show ?thesis by blast
qed


lemma construct_internal_frame:
  assumes "construct_internal cls doc s = (r, s')"
  shows "colls s' = colls s" and "calls s' = calls s" and "DATABASE s' = DATABASE s"
    and "COLLECTION s' = COLLECTION s" and "COLLECTION_INITIALIZED s' = COLLECTION_INITIALIZED s"
    and "next_oid s' = next_oid s"
  using assms
  by (auto simp: construct_internal_def construct_def init_inst_def Let_def
           split: if_splits sum.splits)

lemma insert_one_frame:
  assumes "insert_one c d s = (r, s')"
  shows "objs s' = objs s" and "WEAKREFS s' = WEAKREFS s"
    and "calls s' = calls s @ [InsertOne c d]"
    and "DATABASE s' = DATABASE s" and "COLLECTION s' = COLLECTION s"
    and "COLLECTION_INITIALIZED s' = COLLECTION_INITIALIZED s"
    and "indexes (colls s' c') = indexes (colls s c')"
    and "r = Inl e \<Longrightarrow> e = DuplicateKeyError \<and> colls s' = colls s"
  using assms
  by (auto simp: insert_one_def Let_def split: if_splits)





lemma new_run:
  assumes "new cls args kwargs s = (r, s')"
  obtains
    (no_collection) e s1 where
      "get_collection cls s = (Inl e, s1)" "r = Inl (translate e)" "s' = s1"
  | (refused) c s1 e s2 where
      "get_collection cls s = (Inr c, s1)"
      "insert_one c (priv_get_store_vals cls (new_doc cls args kwargs)) s1 = (Inl e, s2)"
      "r = Inl (translate e)" "s' = s2"
  | (inserted) c s1 inserted_id s2 where
      "get_collection cls s = (Inr c, s1)"
      "insert_one c (priv_get_store_vals cls (new_doc cls args kwargs)) s1 = (Inr inserted_id, s2)"
      "construct_internal cls (AList.update ''_id'' inserted_id (new_doc cls args kwargs)) s2
         = (r, s')"
proof -
  obtain r1 s1 where g: "get_collection cls s = (r1, s1)" by (cases "get_collection cls s")
  show thesis
  proof (cases r1)
    case (Inl e)
    with g assms have "r = Inl (translate e)" "s' = s1" by (auto simp: new_def)
    with g Inl show thesis by (auto intro: no_collection)
  next
    case c: (Inr c)
    obtain r2 s2 where
      i: "insert_one c (priv_get_store_vals cls (new_doc cls args kwargs)) s1 = (r2, s2)"
      by (cases "insert_one c (priv_get_store_vals cls (new_doc cls args kwargs)) s1")
    show thesis
    proof (cases r2)
      case (Inl e)
      with g c i assms have "r = Inl (translate e)" "s' = s2" by (auto simp: new_def)
      with g c i Inl show thesis by (auto intro: refused)
    next
      case (Inr oid)
      with g c i assms have
        "construct_internal cls (AList.update ''_id'' oid (new_doc cls args kwargs)) s2 = (r, s')"
        by (auto simp: new_def)
      with g c i Inr show thesis by (auto intro: inserted)
    qed
  qed
qed









lemma world0_resolves:
  "get_collection person world0 = (Inr person_coll, snd (get_collection person world0))"
  by (simp add: get_collection_def person_def world0_def person_coll_def Let_def)

lemma world0_new_ann:
  "new person [] [(''name'', PStr ''ann'')] world0 =
     (Inr 0, snd (new person [] [(''name'', PStr ''ann'')] world0))"
  by (simp add: new_def get_collection_def Let_def person_def world0_def
      priv_init_collection_def unique_or_key_def create_index_def record_call_def insert_one_def
      priv_get_store_vals_def new_doc_def priv_get_all_args_def dict_update_def priv_get_default_def
      dict_get_def violates_def set_docs_def construct_internal_def construct_def init_inst_def
      getattr_id_def)

section \<open>The unique indexes of the resolved collection\<close>

text \<open>
  The binding of a class changes only in \<open>set_database\<close> and \<open>set_collection\<close>, and the
  unique indexes of a collection only grow. So from a state in which the class is not
  yet initialised, and as long as the program does not bind the class again, the unique
  indexes are in place whenever the class is initialised.
\<close>

lemma init_inst_frame:
  assumes "init_inst cls args kwargs s = (r, s')"
  shows "colls s' = colls s" and "calls s' = calls s" and "DATABASE s' = DATABASE s"
    and "COLLECTION s' = COLLECTION s" and "COLLECTION_INITIALIZED s' = COLLECTION_INITIALIZED s"
  using assms by (auto simp: init_inst_def Let_def split: sum.splits)

lemma construct_frame:
  assumes "construct cls args kwargs s = (r, s')"
  shows "colls s' = colls s" and "calls s' = calls s" and "DATABASE s' = DATABASE s"
    and "COLLECTION s' = COLLECTION s" and "COLLECTION_INITIALIZED s' = COLLECTION_INITIALIZED s"
  using assms by (auto simp: construct_def dest: init_inst_frame split: if_splits)











lemma init_inst_binding: "same_binding (snd (init_inst cls args kwargs s)) s"
  using init_inst_frame(1,3,4,5)[OF surjective_pairing, of cls args kwargs s]
  by (simp add: same_binding_def)















section \<open>What new leaves behind\<close>









section \<open>The identity cache\<close>






lemma cached_live: "cached s K = Some a \<Longrightarrow> WEAKREFS s K = Some a \<and> (\<exists>inst. deref s a = Some inst)"
  by (auto simp: cached_def split: option.splits)







lemma priv_get_colls:
  "priv_get cls doc s = (r, s') \<Longrightarrow> colls s' = colls s"
  by (auto simp: priv_get_def split: option.splits dest: construct_internal_frame(1))





lemma record_call_keeps [simp]:
  "cached (record_call x s) K = cached s K" "store_wf (record_call x s) = store_wf s"
  by (rule cached_cong; simp) (simp add: store_wf_def)





























text \<open>
  The condition on the serializer is needed as well. \<open>_get\<close> looks the stored \<open>_id\<close> up,
  and \<open>__init__\<close> registers the instance under the deserialized one. For the class
  \<open>tagged\<close>, which reads the stored \<open>_id\<close> 7 back as another value, a second \<open>_get\<close> of the
  same document misses and constructs a second instance while the first is alive.
\<close>

lemma declared_id_second_instance:
  "\<not> id_stable tagged \<and>
   fst (priv_get tagged [(''_id'', PInt 7), (''name'', PStr ''x'')] world0) = Inr 0 \<and>
   deref (snd (priv_get tagged [(''_id'', PInt 7), (''name'', PStr ''x'')] world0)) 0 \<noteq> None \<and>
   fst (priv_get tagged [(''_id'', PInt 7), (''name'', PStr ''x'')]
          (snd (priv_get tagged [(''_id'', PInt 7), (''name'', PStr ''x'')] world0))) = Inr 1"
proof -
  have "deserialize tagged (Key ''Tag'') (PInt 7) \<noteq> PInt 7" by (simp add: tagged_def)
  moreover have "map_of (annotations tagged) ''_id'' = Some (Key ''Tag'')" by (simp add: tagged_def)
  ultimately have "\<not> id_stable tagged" unfolding id_stable_def by blast
  then show ?thesis
    by (simp add: priv_get_def cached_def deref_def world0_def tagged_def dict_update_def
        priv_get_retrieve_vals_def construct_internal_def construct_def init_inst_def
        getattr_id_def Let_def dict_get_def)
qed

section \<open>Further facts on class definition and get_or_create\<close>

text \<open>
  For a direct subclass of the base model, defined without class keywords, with no
  field named \<open>self\<close> and no key-marked field named \<open>_id\<close>: with at most one key-marked
  field the definition succeeds and that field, or \<open>'_id'\<close>, is the key field; with two
  or more it raises \<open>MultipleKeys\<close>.
\<close>

lemma init_subclass_single_key:
  assumes "KEY_FIELD s = ''_id''" and "''_id'' \<notin> set (key_fields (annotations cls))"
    and "length (key_fields (annotations cls)) \<le> 1"
    and "''self'' \<notin> fst ` set (annotations cls)"
  shows "fst (init_subclass cls None None s) = Inr () \<and>
         KEY_FIELD (snd (init_subclass cls None None s)) =
           (case key_fields (annotations cls) of [] \<Rightarrow> ''_id'' | k # ks \<Rightarrow> k)"
proof -
  have "scan_keys (annotations cls) ''_id'' =
          Inr (case key_fields (annotations cls) of [] \<Rightarrow> ''_id'' | k # ks \<Rightarrow> k)"
    using scan_keys_without_id_key[OF assms(2)] assms(3)
    by (cases "key_fields (annotations cls)") (auto split: list.splits)
  then show ?thesis using assms(1,4) by (simp add: init_subclass_def Let_def)
qed

lemma init_subclass_many_keys:
  assumes "KEY_FIELD s = ''_id''" and "''_id'' \<notin> set (key_fields (annotations cls))"
    and "2 \<le> length (key_fields (annotations cls))"
  shows "fst (init_subclass cls None None s) = Inl MultipleKeys"
proof -
  have "scan_keys (annotations cls) ''_id'' = Inl MultipleKeys"
    using scan_keys_without_id_key[OF assms(2)] assms(3)
    by (cases "key_fields (annotations cls)") (auto split: list.splits)
  then show ?thesis using assms(1) by (simp add: init_subclass_def Let_def)
qed

text \<open>
  \<open>get_or_create\<close> never changes a stored document, whatever it returns or raises. On
  the miss path it does return a fresh, registered instance when the keywords carry the
  \<open>_id\<close> themselves.
\<close>

lemma init_inst_colls:
  "init_inst cls args kwargs s = (r, s') \<Longrightarrow> colls s' = colls s"
  by (auto simp: init_inst_def Let_def split: sum.splits)

lemma construct_colls:
  "construct cls args kwargs s = (r, s') \<Longrightarrow> colls s' = colls s"
  by (auto simp: construct_def dest: init_inst_colls split: if_splits)

lemma find_one_docs:
  assumes "find_one cls args kwargs s = (r, s')"
  shows "docs (colls s' c) = docs (colls s c)"
proof -
  let ?flt = "priv_get_store_vals cls (priv_get_all_args cls args kwargs)"
  obtain r1 s1 where g: "get_collection cls s = (r1, s1)" by (cases "get_collection cls s")
  note fr = get_collection_frame(5)[OF g, of c]
  show ?thesis
  proof (cases r1)
    case (Inl e)
    with assms g fr show ?thesis by (auto simp: find_one_def)
  next
    case (Inr col)
    let ?s2 = "record_call (FindOne col ?flt) s1"
    show ?thesis
    proof (cases "List.find (matches ?flt) (docs (colls s1 col))")
      case None
      with assms g Inr fr show ?thesis by (auto simp: find_one_def coll_find_one_def)
    next
      case (Some d)
      obtain r3 s3 where p: "priv_get cls d ?s2 = (r3, s3)" by (cases "priv_get cls d ?s2")
      from priv_get_colls[OF p] have "colls s3 = colls s1" by simp
      with assms g Inr Some p fr show ?thesis
        by (auto simp: find_one_def coll_find_one_def split: if_splits sum.splits)
    qed
  qed
qed

lemma get_or_create_persists_nothing:
  assumes "get_or_create cls args kwargs s = (r, s')"
  shows "docs (colls s' c) = docs (colls s c)"
proof -
  obtain r1 s1 where f: "find_one cls args kwargs s = (r1, s1)"
    by (cases "find_one cls args kwargs s")
  note d1 = find_one_docs[OF f, of c]
  show ?thesis
  proof (cases r1)
    case (Inl e)
    with assms f d1 show ?thesis by (auto simp: get_or_create_def)
  next
    case (Inr found)
    show ?thesis
    proof (cases found)
      case None
      with assms f Inr have "construct cls args kwargs s1 = (r, s')"
        by (simp add: get_or_create_def)
      from construct_colls[OF this] d1 show ?thesis by simp
    next
      case (Some a)
      with assms f Inr d1 show ?thesis by (auto simp: get_or_create_def)
    qed
  qed
qed

lemma get_or_create_miss_with_id:
  assumes "find_one cls [] kwargs s = (Inr None, s1)"
    and "''self'' \<notin> fst ` set kwargs" and "distinct (map fst kwargs)"
    and "map_of kwargs ''_id'' = Some i"
  shows "\<exists>inst. get_or_create cls [] kwargs s =
           (Inr (length (objs s1)),
            s1\<lparr>objs := objs s1 @ [Some inst], WEAKREFS := (WEAKREFS s1)(i \<mapsto> length (objs s1))\<rparr>)"
  using init_inst_kwargs[OF assms(3,4), of cls s1] assms(2)
  by (auto simp: get_or_create_def assms(1) construct_def)

section \<open>After the collection is initialised\<close>

lemma priv_get_frame:
  assumes "priv_get cls doc s = (r, s')"
  shows "calls s' = calls s" and "COLLECTION_INITIALIZED s' = COLLECTION_INITIALIZED s"
    and "DATABASE s' = DATABASE s" and "COLLECTION s' = COLLECTION s"
  using assms
  by (auto simp: priv_get_def split: option.splits dest: construct_internal_frame)

lemma get_each_frame:
  "get_each cls ds s = (r, s') \<Longrightarrow>
     calls s' = calls s \<and> COLLECTION_INITIALIZED s' = COLLECTION_INITIALIZED s \<and>
     DATABASE s' = DATABASE s \<and> COLLECTION s' = COLLECTION s"
proof (induction ds arbitrary: s r s')
  case Nil
  then show ?case by auto
next
  case (Cons d ds)
  obtain r1 s1 where p: "priv_get cls d s = (r1, s1)" by (cases "priv_get cls d s")
  note pf = priv_get_frame[OF p]
  show ?case
  proof (cases r1)
    case (Inl e)
    with Cons.prems p have "s' = s1" by simp
    with pf show ?thesis by simp
  next
    case (Inr a)
    obtain r2 s2 where g: "get_each cls ds s1 = (r2, s2)" by (cases "get_each cls ds s1")
    with Cons.prems p Inr have "s' = s2" by (auto split: sum.splits)
    with Cons.IH[OF g] pf show ?thesis by simp
  qed
qed

lemma get_collection_initialized_same:
  "COLLECTION_INITIALIZED s \<Longrightarrow> get_collection cls s = (r, s') \<Longrightarrow> s' = s"
  by (rule get_collection_frame(6))

lemma query_no_index:
  assumes "COLLECTION_INITIALIZED s"
  shows "COLLECTION_INITIALIZED (snd (query cls q s)) \<and>
         (\<exists>xs. calls (snd (query cls q s)) = calls s @ xs \<and> list_all no_index_call xs)"
proof -
  obtain r1 s1 where g: "get_collection cls s = (r1, s1)" by (cases "get_collection cls s")
  from get_collection_initialized_same[OF assms g] have s1: "s1 = s" .
  show ?thesis
  proof (cases r1)
    case (Inl e)
    with g s1 have "snd (query cls q s) = s" by (simp add: query_def)
    with assms show ?thesis by simp
  next
    case (Inr col)
    let ?s2 = "record_call (Find col q) s"
    obtain r s' where ge: "get_each cls (filter (matches q) (docs (colls s col))) ?s2 = (r, s')"
      by (cases "get_each cls (filter (matches q) (docs (colls s col))) ?s2")
    with g s1 Inr have "snd (query cls q s) = s'" by (simp add: query_def coll_find_def)
    moreover from get_each_frame[OF ge] assms
    have "COLLECTION_INITIALIZED s'" "calls s' = calls s @ [Find col q]" by simp_all
    ultimately show ?thesis by (simp add: no_index_call_def)
  qed
qed

lemma find_one_no_index:
  assumes "COLLECTION_INITIALIZED s"
  shows "COLLECTION_INITIALIZED (snd (find_one cls args kwargs s)) \<and>
         (\<exists>xs. calls (snd (find_one cls args kwargs s)) = calls s @ xs \<and>
               list_all no_index_call xs)"
proof -
  let ?flt = "priv_get_store_vals cls (priv_get_all_args cls args kwargs)"
  obtain r1 s1 where g: "get_collection cls s = (r1, s1)" by (cases "get_collection cls s")
  from get_collection_initialized_same[OF assms g] have s1: "s1 = s" .
  show ?thesis
  proof (cases r1)
    case (Inl e)
    with g s1 have "snd (find_one cls args kwargs s) = s" by (simp add: find_one_def)
    with assms show ?thesis by simp
  next
    case (Inr col)
    let ?s2 = "record_call (FindOne col ?flt) s"
    have base: "COLLECTION_INITIALIZED ?s2" "calls ?s2 = calls s @ [FindOne col ?flt]"
      using assms by simp_all
    show ?thesis
    proof (cases "List.find (matches ?flt) (docs (colls s col))")
      case None
      with g s1 Inr have "snd (find_one cls args kwargs s) = ?s2"
        by (simp add: find_one_def coll_find_one_def)
      with base show ?thesis by (simp add: no_index_call_def)
    next
      case (Some d)
      obtain r3 s3 where p: "priv_get cls d ?s2 = (r3, s3)" by (cases "priv_get cls d ?s2")
      note pf = priv_get_frame[OF p]
      from g s1 Inr Some p have "snd (find_one cls args kwargs s) = ?s2 \<or>
          snd (find_one cls args kwargs s) = s3"
        by (auto simp: find_one_def coll_find_one_def split: sum.splits)
      with base pf show ?thesis by (auto simp: no_index_call_def)
    qed
  qed
qed

lemma delete_all_no_index:
  assumes "COLLECTION_INITIALIZED s"
  shows "COLLECTION_INITIALIZED (snd (delete_all cls args kwargs s)) \<and>
         (\<exists>xs. calls (snd (delete_all cls args kwargs s)) = calls s @ xs \<and>
               list_all no_index_call xs)"
proof -
  obtain r1 s1 where g: "get_collection cls s = (r1, s1)" by (cases "get_collection cls s")
  from get_collection_initialized_same[OF assms g] have s1: "s1 = s" .
  show ?thesis using assms g s1
    by (cases r1) (auto simp: delete_all_def delete_many_def no_index_call_def)
qed

lemma update_no_index:
  assumes "COLLECTION_INITIALIZED s"
  shows "COLLECTION_INITIALIZED (snd (update cls a kwargs s)) \<and>
         (\<exists>xs. calls (snd (update cls a kwargs s)) = calls s @ xs \<and> list_all no_index_call xs)"
proof (cases "deref s a")
  case None
  with assms show ?thesis by (simp add: update_def)
next
  case (Some inst)
  show ?thesis
  proof (cases "declared cls kwargs = []")
    case True
    with Some assms show ?thesis by (simp add: update_def)
  next
    case False
    let ?s0 = "s\<lparr>objs := (objs s)[a := Some (dict_update inst (declared cls kwargs))]\<rparr>"
    have i0: "COLLECTION_INITIALIZED ?s0" using assms by simp
    obtain r s' where u: "update cls a kwargs s = (r, s')" by (cases "update cls a kwargs s")
    from Some False u have "COLLECTION_INITIALIZED s' \<and>
         (\<exists>xs. calls s' = calls s @ xs \<and> list_all no_index_call xs)"
    proof (cases rule: update_run)
      case (no_collection e s1)
      from get_collection_initialized_same[OF i0 no_collection(1)] no_collection(3) assms
      show ?thesis by simp
    next
      case (no_id col s1 e)
      from get_collection_initialized_same[OF i0 no_id(1)] no_id(4) assms
      show ?thesis by simp
    next
      case (written col s1 i r2)
      from get_collection_initialized_same[OF i0 written(1)] have s1: "s1 = ?s0" .
      have "calls s' = calls s @ [UpdateOne col [(''_id'', i)]
              (priv_get_store_vals cls (declared cls kwargs))]"
        using update_one_frame(3)[OF written(3)] s1 by simp
      moreover have "COLLECTION_INITIALIZED s'"
        using written(3) s1 assms
        by (auto simp: update_one_def Let_def split: option.splits if_splits)
      ultimately show ?thesis by (simp add: no_index_call_def)
    qed
    with u show ?thesis by simp
  qed
qed

lemma construct_no_index:
  assumes "COLLECTION_INITIALIZED s"
  shows "COLLECTION_INITIALIZED (snd (construct cls args kwargs s)) \<and>
         (\<exists>xs. calls (snd (construct cls args kwargs s)) = calls s @ xs \<and>
               list_all no_index_call xs)"
  using construct_frame(2,5)[OF surjective_pairing, of cls args kwargs s] assms by simp

lemma get_or_create_no_index:
  assumes "COLLECTION_INITIALIZED s"
  shows "COLLECTION_INITIALIZED (snd (get_or_create cls args kwargs s)) \<and>
         (\<exists>xs. calls (snd (get_or_create cls args kwargs s)) = calls s @ xs \<and>
               list_all no_index_call xs)"
proof -
  obtain r1 s1 where f: "find_one cls args kwargs s = (r1, s1)"
    by (cases "find_one cls args kwargs s")
  from find_one_no_index[OF assms, of cls args kwargs] f obtain xs where
    i1: "COLLECTION_INITIALIZED s1" and c1: "calls s1 = calls s @ xs" "list_all no_index_call xs"
    by auto
  have "snd (get_or_create cls args kwargs s) = s1 \<or>
        snd (get_or_create cls args kwargs s) = snd (construct cls args kwargs s1)"
    by (simp add: get_or_create_def f split: sum.splits option.splits)
  with construct_no_index[OF i1, of cls args kwargs] i1 c1 show ?thesis by auto
qed

lemma new_no_index:
  assumes "COLLECTION_INITIALIZED s"
  shows "COLLECTION_INITIALIZED (snd (new cls args kwargs s)) \<and>
         (\<exists>xs. calls (snd (new cls args kwargs s)) = calls s @ xs \<and> list_all no_index_call xs)"
proof -
  obtain r s' where n: "new cls args kwargs s = (r, s')" by (cases "new cls args kwargs s")
  have "COLLECTION_INITIALIZED s' \<and> (\<exists>xs. calls s' = calls s @ xs \<and> list_all no_index_call xs)"
    using n
  proof (cases rule: new_run)
    case (no_collection e s1)
    from get_collection_initialized_same[OF assms no_collection(1)] no_collection(3) assms
    show ?thesis by simp
  next
    case (refused col s1 e s2)
    from get_collection_initialized_same[OF assms refused(1)] have s1: "s1 = s" .
    note inf = insert_one_frame[OF refused(2)]
    from inf(3,6) s1 assms refused(4) show ?thesis by (simp add: no_index_call_def)
  next
    case (inserted col s1 oid s2)
    from get_collection_initialized_same[OF assms inserted(1)] have s1: "s1 = s" .
    note inf = insert_one_frame[OF inserted(2)]
    note cf = construct_internal_frame[OF inserted(3)]
    from inf(3,6) cf(2,5) s1 assms show ?thesis by (simp add: no_index_call_def)
  qed
  with n show ?thesis by simp
qed

lemma delete_no_index:
  assumes "COLLECTION_INITIALIZED s"
  shows "COLLECTION_INITIALIZED (snd (delete cls a s)) \<and>
         (\<exists>xs. calls (snd (delete cls a s)) = calls s @ xs \<and> list_all no_index_call xs)"
proof (cases "deref s a")
  case None
  with assms show ?thesis by (simp add: delete_def)
next
  case (Some inst)
  obtain r1 s1 where g: "get_collection cls s = (r1, s1)" by (cases "get_collection cls s")
  from get_collection_initialized_same[OF assms g] have s1: "s1 = s" .
  show ?thesis
  proof (cases r1)
    case (Inl e)
    with Some g s1 assms show ?thesis by (simp add: delete_def)
  next
    case (Inr col)
    show ?thesis
    proof (cases "getattr_id cls inst")
      case (Inl e)
      with Some g Inr s1 assms show ?thesis by (simp add: delete_def)
    next
      case i: (Inr i)
      let ?s2 = "delete_one col [(''_id'', i)] s"
      have "snd (delete cls a s) = ?s2 \<or>
            snd (delete cls a s) = ?s2\<lparr>WEAKREFS := (WEAKREFS ?s2)(i := None)\<rparr>"
        using s1 by (simp add: delete_def Some g Inr i Let_def split: option.splits)
      with assms show ?thesis by (auto simp: no_index_call_def)
    qed
  qed
qed

lemma set_database_no_index:
  assumes "COLLECTION_INITIALIZED s"
  shows "COLLECTION_INITIALIZED (snd (set_database b s)) \<and>
         calls (snd (set_database b s)) = calls s"
  using assms by (cases b) (simp_all split: option.splits)

lemma set_collection_no_index:
  assumes "COLLECTION_INITIALIZED s"
  shows "COLLECTION_INITIALIZED (snd (set_collection b s)) \<and>
         calls (snd (set_collection b s)) = calls s"
  using assms by (cases b) (simp_all split: option.splits)

lemma exec_op_no_index:
  assumes "COLLECTION_INITIALIZED s"
  shows "COLLECTION_INITIALIZED (exec_op cls x s) \<and>
         (\<exists>xs. calls (exec_op cls x s) = calls s @ xs \<and> list_all no_index_call xs)"
proof (cases x)
  case (DoFind args kwargs)
  with query_no_index[OF assms] show ?thesis by (simp add: find_all_def)
next
  case (DoFindOne args kwargs)
  with find_one_no_index[OF assms] show ?thesis by simp
next
  case (DoQuery q)
  with query_no_index[OF assms] show ?thesis by simp
next
  case (DoDeleteAll args kwargs)
  with delete_all_no_index[OF assms] show ?thesis by simp
next
  case (DoUpdate a kwargs)
  with update_no_index[OF assms] show ?thesis by simp
next
  case (DoSetattr a k v)
  with assms show ?thesis by (simp add: setattr_def split: option.splits)
next
  case (DoCollect a)
  with assms show ?thesis by (simp add: collect_def)
next
  case (DoNew args kwargs)
  with new_no_index[OF assms] show ?thesis by simp
next
  case (DoGetOrCreate args kwargs)
  with get_or_create_no_index[OF assms] show ?thesis by simp
next
  case (DoConstruct args kwargs)
  with construct_no_index[OF assms] show ?thesis by simp
next
  case (DoDelete a)
  with delete_no_index[OF assms] show ?thesis by simp
next
  case (DoSetDatabase b)
  with set_database_no_index[OF assms, of b] show ?thesis by simp
next
  case (DoSetCollection b)
  with set_collection_no_index[OF assms, of b] show ?thesis by simp
qed

lemma run_no_index:
  "COLLECTION_INITIALIZED s \<Longrightarrow>
     COLLECTION_INITIALIZED (run cls ops s) \<and>
     (\<exists>xs. calls (run cls ops s) = calls s @ xs \<and> list_all no_index_call xs)"
  unfolding run_def
proof (induction ops arbitrary: s)
  case Nil
  then show ?case by simp
next
  case (Cons op ops)
  from exec_op_no_index[OF Cons.prems, of cls op] obtain xs where
    i: "COLLECTION_INITIALIZED (exec_op cls op s)"
    and c: "calls (exec_op cls op s) = calls s @ xs" "list_all no_index_call xs"
    by blast
  from Cons.IH[OF i] obtain ys where
    "COLLECTION_INITIALIZED (fold (exec_op cls) ops (exec_op cls op s))"
    "calls (fold (exec_op cls) ops (exec_op cls op s)) = calls (exec_op cls op s) @ ys"
    "list_all no_index_call ys"
    by blast
  with c show ?case by (auto intro: exI[of _ "xs @ ys"])
qed

section \<open>Index creation\<close>

text \<open>
  Claim C7. Unique-index creation is lazy and happens once per class. A call of
  \<open>get_collection\<close> that fails changes nothing, so the flag stays unset. The first call
  that succeeds (the flag is still unset) issues one \<open>create_index\<close> call for every
  annotated field that is key-marked or unique-marked, in declaration order and nothing
  else, after which each of these fields carries a unique index in the resolved
  collection, and the flag is set. A call made with the flag set returns the state as
  it is: no index is created. And the flag stays set: whatever the program does with the
  class afterwards (retrievals, deletions by filter, updates, assignments, collections,
  new documents, \<open>get_or_create\<close>, constructor calls, deletions of instances, new bindings),
  none of the calls made to the driver is a \<open>create_index\<close>, and a further
  \<open>get_collection\<close> changes nothing.
\<close>

theorem get_collection_index_once:
  assumes "get_collection cls s = (r, s')"
  shows "case r of
           Inl e \<Rightarrow> s' = s
         | Inr c \<Rightarrow>
             COLLECTION_INITIALIZED s' \<and>
             (if COLLECTION_INITIALIZED s then s' = s
              else calls s' = calls s @ map (CreateIndex c)
                      (filter (unique_or_key cls) (map fst (annotations cls)))
                 \<and> {k \<in> fst ` set (annotations cls). unique_or_key cls k}
                      \<subseteq> set (indexes (colls s' c))) \<and>
             (\<forall>ops. COLLECTION_INITIALIZED (run cls ops s') \<and>
                (\<exists>xs. calls (run cls ops s') = calls s' @ xs \<and> list_all no_index_call xs) \<and>
                snd (get_collection cls (run cls ops s')) = run cls ops s')"
proof (cases r)
  case (Inl e)
  with assms show ?thesis by (auto dest: get_collection_Inl)
next
  case (Inr c)
  with assms have "s' = (if COLLECTION_INITIALIZED s then s else priv_init_collection cls c s)"
    by (auto dest: get_collection_Inr)
  then have A: "COLLECTION_INITIALIZED s'"
    and B: "if COLLECTION_INITIALIZED s then s' = s
            else calls s' = calls s @ map (CreateIndex c)
                      (filter (unique_or_key cls) (map fst (annotations cls)))
                 \<and> {k \<in> fst ` set (annotations cls). unique_or_key cls k}
                      \<subseteq> set (indexes (colls s' c))"
    by auto
  have C: "COLLECTION_INITIALIZED (run cls ops s') \<and>
           (\<exists>xs. calls (run cls ops s') = calls s' @ xs \<and> list_all no_index_call xs) \<and>
           snd (get_collection cls (run cls ops s')) = run cls ops s'" for ops
  proof -
    from run_no_index[OF A, of cls ops]
    have i: "COLLECTION_INITIALIZED (run cls ops s')"
      and x: "\<exists>xs. calls (run cls ops s') = calls s' @ xs \<and> list_all no_index_call xs"
      by simp_all
    from get_collection_initialized_same[OF i surjective_pairing]
    have "snd (get_collection cls (run cls ops s')) = run cls ops s'" .
    with i x show ?thesis by simp
  qed
  from A B C Inr show ?thesis by simp
qed

theorem get_collection_index_once_witness:
  "COLLECTION_INITIALIZED (snd (get_collection person world0)) \<and>
   calls (snd (get_collection person world0)) = [CreateIndex person_coll ''name''] \<and>
   ''name'' \<in> set (indexes (colls (snd (get_collection person world0)) person_coll))"
proof -
  have g: "get_collection person world0 = (Inr person_coll, snd (get_collection person world0))"
    by (simp add: get_collection_def person_def world0_def person_coll_def Let_def)
  have ni: "\<not> COLLECTION_INITIALIZED world0" and c0: "calls world0 = []"
    by (simp_all add: world0_def)
  have ks: "filter (unique_or_key person) (map fst (annotations person)) = [''name'']"
    and k: "''name'' \<in> {k \<in> fst ` set (annotations person). unique_or_key person k}"
    by (simp_all add: person_def unique_or_key_def)
  from get_collection_index_once[OF g] k show ?thesis
    by (auto simp: ni c0 ks)
qed

end
